theory Spec2Isabelle
  imports Main "HOL-Library.Word" "HOL-Library.Sublist" "HOL-Library.Multiset"
begin

unbundle bit_operations_syntax

section \<open>Data model of the table generator\<close>

text \<open>
  The generator (\<^verbatim>\<open>CodepointWidthDetector_gen.go\<close>) is a Go program. Go's \<^verbatim>\<open>int\<close> is
  a 64-bit signed integer; it is modelled as \<^typ>\<open>int\<close> with the wrap-around written out
  where a value can leave the 64-bit range. \<^verbatim>\<open>TrieType\<close> is \<^verbatim>\<open>uint32\<close>, modelled as
  \<^typ>\<open>32 word\<close>; \<^verbatim>\<open>uint8\<close> is \<^typ>\<open>8 word\<close>. A runtime panic is the error value
  \<open>Panic\<close>, a loop that does not return is \<open>Diverged\<close>; an \<^verbatim>\<open>error\<close> returned by \<^verbatim>\<open>fmt.Errorf\<close> is one of the other constructors
  and carries the values the message is formatted from.
\<close>

type_synonym TrieType = "32 word"

datatype CharacterWidth = cwZeroWidth | cwNarrow | cwWide | cwAmbiguous

datatype ClusterBreak =
    cbOther | cbControl | cbExtend | cbRI | cbPrepend
  | cbHangulL | cbHangulV | cbHangulT | cbHangulLV | cbHangulLVT
  | cbInCBLinker | cbInCBConsonant | cbExtPic | cbZWJ

text \<open>The numeric values that \<^verbatim>\<open>iota\<close> gives the constants.\<close>

fun cwValue :: "CharacterWidth \<Rightarrow> nat" where
  "cwValue cwZeroWidth = 0"
| "cwValue cwNarrow = 1"
| "cwValue cwWide = 2"
| "cwValue cwAmbiguous = 3"

fun cbValue :: "ClusterBreak \<Rightarrow> nat" where
  "cbValue cbOther = 0"
| "cbValue cbControl = 1"
| "cbValue cbExtend = 2"
| "cbValue cbRI = 3"
| "cbValue cbPrepend = 4"
| "cbValue cbHangulL = 5"
| "cbValue cbHangulV = 6"
| "cbValue cbHangulT = 7"
| "cbValue cbHangulLV = 8"
| "cbValue cbHangulLVT = 9"
| "cbValue cbInCBLinker = 10"
| "cbValue cbInCBConsonant = 11"
| "cbValue cbExtPic = 12"
| "cbValue cbZWJ = 13"

definition cbCount :: nat where
  "cbCount = 14"

definition allClusterBreaks :: "ClusterBreak list" where
  "allClusterBreaks =
     [cbOther, cbControl, cbExtend, cbRI, cbPrepend, cbHangulL, cbHangulV, cbHangulT,
      cbHangulLV, cbHangulLVT, cbInCBLinker, cbInCBConsonant, cbExtPic, cbZWJ]"

datatype GenError =
    Panic
  | Diverged
  | UnrecognizedGCB string int int
  | UnexpectedExtPict string int int
  | UnexpectedLinker string int int
  | UnexpectedConsonant string int int
  | UnrecognizedInCB string int int
  | UnrecognizedEa string int int

text \<open>\<^verbatim>\<open>var \<Omega> uint8 = 0b11\<close>: the verdict "break".\<close>

definition \<Omega> :: "8 word" where
  "\<Omega> = 3"

section \<open>The join rules\<close>

text \<open>
  \<^verbatim>\<open>JoinRules\<close>, indexed by state, leading category and trailing category. The first table
  is the base table, the second the one entered after a pair of regional indicators.
\<close>

definition JoinRules :: "8 word list list list" where
  "JoinRules =
  [[[\<Omega>, \<Omega>, 0, \<Omega>, \<Omega>, \<Omega>, \<Omega>, \<Omega>, \<Omega>, \<Omega>, 0, \<Omega>, \<Omega>, 0],
    [\<Omega>, \<Omega>, \<Omega>, \<Omega>, \<Omega>, \<Omega>, \<Omega>, \<Omega>, \<Omega>, \<Omega>, \<Omega>, \<Omega>, \<Omega>, \<Omega>],
    [\<Omega>, \<Omega>, 0, \<Omega>, \<Omega>, \<Omega>, \<Omega>, \<Omega>, \<Omega>, \<Omega>, 0, \<Omega>, \<Omega>, 0],
    [\<Omega>, \<Omega>, 0, 1, \<Omega>, \<Omega>, \<Omega>, \<Omega>, \<Omega>, \<Omega>, 0, \<Omega>, \<Omega>, 0],
    [0, \<Omega>, 0, 0, 0, 0, 0, 0, 0, 0, 0, 0, 0, 0],
    [\<Omega>, \<Omega>, 0, \<Omega>, \<Omega>, 0, 0, \<Omega>, 0, 0, 0, \<Omega>, \<Omega>, 0],
    [\<Omega>, \<Omega>, 0, \<Omega>, \<Omega>, \<Omega>, 0, 0, \<Omega>, \<Omega>, 0, \<Omega>, \<Omega>, 0],
    [\<Omega>, \<Omega>, 0, \<Omega>, \<Omega>, \<Omega>, \<Omega>, 0, \<Omega>, \<Omega>, 0, \<Omega>, \<Omega>, 0],
    [\<Omega>, \<Omega>, 0, \<Omega>, \<Omega>, \<Omega>, 0, 0, \<Omega>, \<Omega>, 0, \<Omega>, \<Omega>, 0],
    [\<Omega>, \<Omega>, 0, \<Omega>, \<Omega>, \<Omega>, \<Omega>, 0, \<Omega>, \<Omega>, 0, \<Omega>, \<Omega>, 0],
    [\<Omega>, \<Omega>, 0, \<Omega>, \<Omega>, \<Omega>, \<Omega>, \<Omega>, \<Omega>, \<Omega>, 0, 0, \<Omega>, 0],
    [\<Omega>, \<Omega>, 0, \<Omega>, \<Omega>, \<Omega>, \<Omega>, \<Omega>, \<Omega>, \<Omega>, 0, \<Omega>, \<Omega>, 0],
    [\<Omega>, \<Omega>, 0, \<Omega>, \<Omega>, \<Omega>, \<Omega>, \<Omega>, \<Omega>, \<Omega>, 0, \<Omega>, \<Omega>, 0],
    [\<Omega>, \<Omega>, 0, \<Omega>, \<Omega>, \<Omega>, \<Omega>, \<Omega>, \<Omega>, \<Omega>, 0, \<Omega>, 0, 0]],
   [[\<Omega>, \<Omega>, 0, \<Omega>, \<Omega>, \<Omega>, \<Omega>, \<Omega>, \<Omega>, \<Omega>, 0, \<Omega>, \<Omega>, 0],
    [\<Omega>, \<Omega>, \<Omega>, \<Omega>, \<Omega>, \<Omega>, \<Omega>, \<Omega>, \<Omega>, \<Omega>, \<Omega>, \<Omega>, \<Omega>, \<Omega>],
    [\<Omega>, \<Omega>, 0, \<Omega>, \<Omega>, \<Omega>, \<Omega>, \<Omega>, \<Omega>, \<Omega>, 0, \<Omega>, \<Omega>, 0],
    [\<Omega>, \<Omega>, 0, \<Omega>, \<Omega>, \<Omega>, \<Omega>, \<Omega>, \<Omega>, \<Omega>, 0, \<Omega>, \<Omega>, 0],
    [0, \<Omega>, 0, 0, 0, 0, 0, 0, 0, 0, 0, 0, 0, 0],
    [\<Omega>, \<Omega>, 0, \<Omega>, \<Omega>, 0, 0, \<Omega>, 0, 0, 0, \<Omega>, \<Omega>, 0],
    [\<Omega>, \<Omega>, 0, \<Omega>, \<Omega>, \<Omega>, 0, 0, \<Omega>, \<Omega>, 0, \<Omega>, \<Omega>, 0],
    [\<Omega>, \<Omega>, 0, \<Omega>, \<Omega>, \<Omega>, \<Omega>, 0, \<Omega>, \<Omega>, 0, \<Omega>, \<Omega>, 0],
    [\<Omega>, \<Omega>, 0, \<Omega>, \<Omega>, \<Omega>, 0, 0, \<Omega>, \<Omega>, 0, \<Omega>, \<Omega>, 0],
    [\<Omega>, \<Omega>, 0, \<Omega>, \<Omega>, \<Omega>, \<Omega>, 0, \<Omega>, \<Omega>, 0, \<Omega>, \<Omega>, 0],
    [\<Omega>, \<Omega>, 0, \<Omega>, \<Omega>, \<Omega>, \<Omega>, \<Omega>, \<Omega>, \<Omega>, 0, 0, \<Omega>, 0],
    [\<Omega>, \<Omega>, 0, \<Omega>, \<Omega>, \<Omega>, \<Omega>, \<Omega>, \<Omega>, \<Omega>, 0, \<Omega>, \<Omega>, 0],
    [\<Omega>, \<Omega>, 0, \<Omega>, \<Omega>, \<Omega>, \<Omega>, \<Omega>, \<Omega>, \<Omega>, 0, \<Omega>, \<Omega>, 0],
    [\<Omega>, \<Omega>, 0, \<Omega>, \<Omega>, \<Omega>, \<Omega>, \<Omega>, \<Omega>, \<Omega>, 0, \<Omega>, 0, 0]]]"

text \<open>
  \<^verbatim>\<open>prepareRulesTable\<close> packs each row of verdicts into one \<^verbatim>\<open>uint32\<close>, two bits per
  trailing category. \<open>packRow\<close> is the inner loop over \<^verbatim>\<open>row\<close> (with \<open>trail\<close> the running
  index), \<open>packTable\<close> the loop over the rows of one table (with \<open>lead\<close> the running index,
  writing into the 16 zero-initialised entries of \<^verbatim>\<open>compressed[prevIndex]\<close>), and
  \<open>prepareRulesTable\<close> the loop over the tables. The two \<^verbatim>\<open>panic\<close> calls and the index
  panic of a write past the 16 entries are the error \<open>Panic\<close>.
\<close>

fun packRow :: "nat \<Rightarrow> 32 word \<Rightarrow> 8 word list \<Rightarrow> GenError + 32 word" where
  "packRow trail nextIndices [] = Inr nextIndices"
| "packRow trail nextIndices (nextIndex # row) =
     (if nextIndex > \<Omega> then Inl Panic
      else packRow (Suc trail) (nextIndices OR push_bit (trail * 2) (ucast nextIndex)) row)"

fun packTable :: "nat \<Rightarrow> 32 word list \<Rightarrow> 8 word list list \<Rightarrow> GenError + 32 word list" where
  "packTable lead compressed [] = Inr compressed"
| "packTable lead compressed (row # table) =
     (if length row > 16 then Inl Panic
      else case packRow 0 0 row of
        Inl e \<Rightarrow> Inl e
      | Inr nextIndices \<Rightarrow>
          if lead < length compressed
          then packTable (Suc lead) (compressed[lead := nextIndices]) table
          else Inl Panic)"

fun prepareRulesTable :: "8 word list list list \<Rightarrow> GenError + 32 word list list" where
  "prepareRulesTable [] = Inr []"
| "prepareRulesTable (table # rules) =
     (case packTable 0 (replicate 16 0) table of
        Inl e \<Rightarrow> Inl e
      | Inr packed \<Rightarrow>
          (case prepareRulesTable rules of
             Inl e \<Rightarrow> Inl e
           | Inr rest \<Rightarrow> Inr (packed # rest)))"

text \<open>\<^verbatim>\<open>bits.Len8\<close>: the number of bits needed to represent the value.\<close>

fun Len :: "nat \<Rightarrow> nat" where
  "Len n = (if n = 0 then 0 else Suc (Len (n div 2)))"

declare Len.simps [simp del]

definition Len8 :: "8 word \<Rightarrow> nat" where
  "Len8 x = Len (unat x)"

section \<open>The generated runtime functions\<close>

text \<open>
  \<^verbatim>\<open>run\<close> prints the C++ functions below; the constants in their bodies are the values
  the format strings are filled with. \<open>s_joinRules\<close> is the table printed from
  \<^verbatim>\<open>prepareRulesTable(JoinRules)\<close>. A read outside an array is undefined behaviour in C++;
  the model returns \<open>None\<close> for it.
\<close>

definition s_joinRules :: "32 word list list" where
  "s_joinRules = (case prepareRulesTable JoinRules of Inr rules \<Rightarrow> rules | Inl e \<Rightarrow> [])"

definition ucdGraphemeJoins :: "8 word \<Rightarrow> 8 word \<Rightarrow> 8 word \<Rightarrow> 8 word option" where
  "ucdGraphemeJoins state lead trail =
     (let l = unat (lead AND 15);
          t = unat (trail AND 15)
      in if unat state < length s_joinRules \<and> l < length (s_joinRules ! unat state)
         then Some (ucast (drop_bit (t * Len8 \<Omega>) (s_joinRules ! unat state ! l) AND ucast \<Omega>))
         else None)"

definition ucdGraphemeDone :: "8 word \<Rightarrow> bool" where
  "ucdGraphemeDone state \<longleftrightarrow> state = \<Omega>"

definition ucdToCharacterWidth :: "8 word \<Rightarrow> int" where
  "ucdToCharacterWidth val = uint (drop_bit 6 val)"

text \<open>\<^verbatim>\<open>trieValue\<close>: \<^verbatim>\<open>TrieType(byte(cb) | byte(width)<<6)\<close>.\<close>

definition trieValue :: "ClusterBreak \<Rightarrow> CharacterWidth \<Rightarrow> TrieType" where
  "trieValue cb width =
     ucast ((word_of_nat (cbValue cb) :: 8 word) OR push_bit 6 (word_of_nat (cwValue width) :: 8 word))"


text \<open>The entry of \<^verbatim>\<open>JoinRules\<close> for a state and a pair of categories.\<close>

definition joinRule :: "nat \<Rightarrow> ClusterBreak \<Rightarrow> ClusterBreak \<Rightarrow> 8 word" where
  "joinRule s lead trail = JoinRules ! s ! cbValue lead ! cbValue trail"

section \<open>The grapheme scan\<close>

text \<open>
  Modelled from the spec: \<^verbatim>\<open>GraphemeNext\<close> and \<^verbatim>\<open>GraphemePrev\<close> of
  \<^verbatim>\<open>CodepointWidthDetector\<close>, whose implementation is not among the sources (only the
  tests that call them are). The spec describes the scan as built on \<^verbatim>\<open>joins\<close>: from a
  starting offset, with the state set to the default state at the start of the scan, it
  tests adjacent code points with \<^verbatim>\<open>joins\<close>, threads the returned state, and stops at
  the first break verdict; the backward scan is the mirrored right-to-left scan. The width
  of a cluster is given by the spec only as "each contributing its own column" with
  "combining marks contribute ZeroWidth": the model adds the widths of the members.

  The text is the list of classification values that \<^verbatim>\<open>ucdLookup\<close> returns for its code
  points. \<open>joinedRun\<close> counts how many further code points join the cluster; \<open>cur\<close> is the
  code point visited last and \<open>nxt\<close> the one visited next, in the direction of the scan.
\<close>

fun joinedRun ::
  "(8 word \<Rightarrow> 8 word \<Rightarrow> 8 word \<Rightarrow> 8 word option) \<Rightarrow> 8 word \<Rightarrow> 8 word \<Rightarrow> 8 word list \<Rightarrow> nat option"
where
  "joinedRun joins state cur [] = Some 0"
| "joinedRun joins state cur (nxt # rest) =
     (case joins state cur nxt of
        None \<Rightarrow> None
      | Some v \<Rightarrow>
          if ucdGraphemeDone v then Some 0
          else map_option Suc (joinedRun joins v nxt rest))"

definition clusterWidth :: "8 word list \<Rightarrow> int" where
  "clusterWidth cluster = sum_list (map ucdToCharacterWidth cluster)"

definition GraphemeNext :: "8 word list \<Rightarrow> nat \<Rightarrow> (nat \<times> int) option" where
  "GraphemeNext txt beg =
     (case drop beg txt of
        [] \<Rightarrow> Some (length txt, 0)
      | cur # rest \<Rightarrow>
          (case joinedRun ucdGraphemeJoins 0 cur rest of
             None \<Rightarrow> None
           | Some k \<Rightarrow> Some (beg + 1 + k, clusterWidth (take (Suc k) (drop beg txt)))))"

definition GraphemePrev :: "8 word list \<Rightarrow> nat \<Rightarrow> (nat \<times> int) option" where
  "GraphemePrev txt fin =
     (case rev (take fin txt) of
        [] \<Rightarrow> Some (0, 0)
      | cur # rest \<Rightarrow>
          (case joinedRun (\<lambda>state later earlier. ucdGraphemeJoins state earlier later) 0 cur rest of
             None \<Rightarrow> None
           | Some k \<Rightarrow>
               Some (length (take fin txt) - 1 - k, clusterWidth (take (Suc k) (rev (take fin txt))))))"

text \<open>
  The two loops of the test \<^verbatim>\<open>Graphemes\<close> in \<^verbatim>\<open>CodepointWidthDetectorTests.cpp\<close>:
  \<^verbatim>\<open>for (beg = 0; beg < text.size();) { end = GraphemeNext(text, beg, &width); ...; beg = end; }\<close>
  and
  \<^verbatim>\<open>for (end = text.size(); end > 0;) { beg = GraphemePrev(text, end, &width); ...; end = beg; }\<close>.
  They collect here the boundary offset and the width that each call returns. The loops
  have no bound of their own, so they take fuel; running out of fuel is \<open>None\<close>.
\<close>

fun scanForward :: "nat \<Rightarrow> 8 word list \<Rightarrow> nat \<Rightarrow> (nat \<times> int) list option" where
  "scanForward fuel txt beg =
     (if beg < length txt then
        (case fuel of
           0 \<Rightarrow> None
         | Suc fuel' \<Rightarrow>
             (case GraphemeNext txt beg of
                None \<Rightarrow> None
              | Some (fin, width) \<Rightarrow> map_option ((#) (fin, width)) (scanForward fuel' txt fin)))
      else Some [])"

fun scanBackward :: "nat \<Rightarrow> 8 word list \<Rightarrow> nat \<Rightarrow> (nat \<times> int) list option" where
  "scanBackward fuel txt fin =
     (if fin > 0 then
        (case fuel of
           0 \<Rightarrow> None
         | Suc fuel' \<Rightarrow>
             (case GraphemePrev txt fin of
                None \<Rightarrow> None
              | Some (beg, width) \<Rightarrow> map_option ((#) (beg, width)) (scanBackward fuel' txt beg)))
      else Some [])"

text \<open>
  The boundary offsets of a text, in increasing order: the start of the forward scan
  followed by the offsets it returns, and the offsets the backward scan returns, reversed,
  followed by its start.
\<close>

definition forwardBoundaries :: "8 word list \<Rightarrow> nat list option" where
  "forwardBoundaries txt =
     map_option (\<lambda>steps. 0 # map fst steps) (scanForward (length txt) txt 0)"

definition backwardBoundaries :: "8 word list \<Rightarrow> nat list option" where
  "backwardBoundaries txt =
     map_option (\<lambda>steps. rev (map fst steps) @ [length txt])
       (scanBackward (length txt) txt (length txt))"

text \<open>The classification values of a text given by the category and width of each code
  point, as \<^verbatim>\<open>ucdLookup\<close> returns them (the last stage of the trie holds bytes).\<close>

definition classify :: "(ClusterBreak \<times> CharacterWidth) list \<Rightarrow> 8 word list" where
  "classify cps = map (\<lambda>(cb, width). ucast (trieValue cb width)) cps"

text \<open>No three consecutive code points of the text are all regional indicators.\<close>

definition noThreeRI :: "ClusterBreak list \<Rightarrow> bool" where
  "noThreeRI cats \<longleftrightarrow> \<not> sublist [cbRI, cbRI, cbRI] cats"

text \<open>
  For the comparison of the two scans: \<open>runBy brk c ds\<close> is the number of elements of \<open>ds\<close>
  that follow \<open>c\<close> before the first adjacent pair that \<open>brk\<close> separates, and \<open>breakAt\<close>
  says that the base table of \<^verbatim>\<open>JoinRules\<close> has a break between the code points \<open>i - 1\<close>
  and \<open>i\<close> of a text with the given categories.
\<close>

fun runBy :: "('a \<Rightarrow> 'a \<Rightarrow> bool) \<Rightarrow> 'a \<Rightarrow> 'a list \<Rightarrow> nat" where
  "runBy brk c [] = 0"
| "runBy brk c (d # ds) = (if brk c d then 0 else Suc (runBy brk d ds))"

definition breakAt :: "ClusterBreak list \<Rightarrow> nat \<Rightarrow> bool" where
  "breakAt cats i \<longleftrightarrow> joinRule 0 (cats ! (i - 1)) (cats ! i) = \<Omega>"

section \<open>Classification extraction\<close>

text \<open>
  The \<^verbatim>\<open>UCD\<close> structure that the XML is decoded into. The attributes that a
  \<^verbatim>\<open>Group\<close> and each of its \<^verbatim>\<open>Char\<close> entries both carry are the fields of \<open>Attrs\<close>.
  The field \<^verbatim>\<open>Char\<close> of a group is named \<open>Chars\<close> here, and \<^verbatim>\<open>HexInt\<close> is \<^typ>\<open>int\<close>.
\<close>

record Attrs =
  GeneralCategory :: string
  GraphemeClusterBreak :: string
  IndicConjunctBreak :: string
  ExtendedPictographic :: string
  EastAsian :: string

record UCDChar = Attrs +
  Codepoint :: int
  FirstCodepoint :: int
  LastCodepoint :: int

record Group = Attrs +
  Chars :: "UCDChar list"

record UCD =
  Description :: string
  Repertoire_Group :: "Group list"

definition coalesce :: "string \<Rightarrow> string \<Rightarrow> string" where
  "coalesce a b = (if a \<noteq> '''' then a else b)"

text \<open>\<^verbatim>\<open>fillRange\<close> overwrites every element of a slice. \<open>fillSlice values low high v\<close> is
  \<^verbatim>\<open>fillRange(values[low:high], v)\<close> seen from \<^verbatim>\<open>values\<close>: the slice expression panics
  unless \<open>0 \<le> low \<le> high \<le> cap(values)\<close>, and the capacity of \<^verbatim>\<open>values\<close> is its
  length.\<close>

definition fillRange :: "'a list \<Rightarrow> 'a \<Rightarrow> 'a list" where
  "fillRange s v = map (\<lambda>_. v) s"

definition fillSlice :: "'a list \<Rightarrow> int \<Rightarrow> int \<Rightarrow> 'a \<Rightarrow> GenError + 'a list" where
  "fillSlice values low high v =
     (if 0 \<le> low \<and> low \<le> high \<and> high \<le> int (length values)
      then Inr (take (nat low) values
                @ fillRange (take (nat high - nat low) (drop (nat low) values)) v
                @ drop (nat high) values)
      else Inl Panic)"

text \<open>The code points that a \<^verbatim>\<open>Char\<close> entry covers: \<^verbatim>\<open>firstCp, lastCp\<close>.\<close>

definition charRange :: "UCDChar \<Rightarrow> int \<times> int" where
  "charRange char =
     (if Codepoint char \<noteq> 0 then (Codepoint char, Codepoint char)
      else (FirstCodepoint char, LastCodepoint char))"

text \<open>The \<^verbatim>\<open>switch graphemeClusterBreak\<close>; \<open>None\<close> is its \<^verbatim>\<open>default\<close> branch.\<close>

definition gcbCategory :: "string \<Rightarrow> ClusterBreak option" where
  "gcbCategory graphemeClusterBreak =
     (if graphemeClusterBreak = ''XX'' then Some cbOther
      else if graphemeClusterBreak = ''CR'' \<or> graphemeClusterBreak = ''LF''
              \<or> graphemeClusterBreak = ''CN'' then Some cbControl
      else if graphemeClusterBreak = ''EX'' \<or> graphemeClusterBreak = ''SM'' then Some cbExtend
      else if graphemeClusterBreak = ''PP'' then Some cbPrepend
      else if graphemeClusterBreak = ''ZWJ'' then Some cbZWJ
      else if graphemeClusterBreak = ''RI'' then Some cbRI
      else if graphemeClusterBreak = ''L'' then Some cbHangulL
      else if graphemeClusterBreak = ''V'' then Some cbHangulV
      else if graphemeClusterBreak = ''T'' then Some cbHangulT
      else if graphemeClusterBreak = ''LV'' then Some cbHangulLV
      else if graphemeClusterBreak = ''LVT'' then Some cbHangulLVT
      else None)"

text \<open>The \<^verbatim>\<open>switch eastAsian\<close>; \<open>None\<close> is its \<^verbatim>\<open>default\<close> branch.\<close>

definition eaWidth :: "string \<Rightarrow> CharacterWidth option" where
  "eaWidth eastAsian =
     (if eastAsian = ''N'' \<or> eastAsian = ''Na'' \<or> eastAsian = ''H'' then Some cwNarrow
      else if eastAsian = ''F'' \<or> eastAsian = ''W'' then Some cwWide
      else if eastAsian = ''A'' then Some cwAmbiguous
      else None)"

text \<open>
  The body of the loop over the \<^verbatim>\<open>Char\<close> entries up to the call of \<^verbatim>\<open>fillRange\<close>: the
  value \<^verbatim>\<open>trieValue(cb, width)\<close> to be written, or the error that is returned. The checks
  are in the order of the source; \<^verbatim>\<open>strings.HasPrefix\<close> is \<open>prefix\<close>.
\<close>

definition charValue :: "Group \<Rightarrow> UCDChar \<Rightarrow> GenError + TrieType" where
  "charValue grp char =
     (let generalCategory = coalesce (GeneralCategory char) (GeneralCategory grp);
          graphemeClusterBreak = coalesce (GraphemeClusterBreak char) (GraphemeClusterBreak grp);
          indicConjunctBreak = coalesce (IndicConjunctBreak char) (IndicConjunctBreak grp);
          extendedPictographic = coalesce (ExtendedPictographic char) (ExtendedPictographic grp);
          eastAsian = coalesce (EastAsian char) (EastAsian grp);
          firstCp = fst (charRange char);
          lastCp = snd (charRange char)
      in case gcbCategory graphemeClusterBreak of
           None \<Rightarrow> Inl (UnrecognizedGCB graphemeClusterBreak firstCp lastCp)
         | Some cb \<Rightarrow>
             if extendedPictographic = ''Y'' \<and> cb \<noteq> cbOther
             then Inl (UnexpectedExtPict graphemeClusterBreak firstCp lastCp)
             else
               let cb = (if extendedPictographic = ''Y'' then cbExtPic else cb) in
               if indicConjunctBreak = ''Linker'' \<and> cb \<noteq> cbExtend
               then Inl (UnexpectedLinker graphemeClusterBreak firstCp lastCp)
               else if indicConjunctBreak = ''Consonant'' \<and> cb \<noteq> cbOther
               then Inl (UnexpectedConsonant graphemeClusterBreak firstCp lastCp)
               else if indicConjunctBreak \<noteq> ''None'' \<and> indicConjunctBreak \<noteq> ''Extend''
                       \<and> indicConjunctBreak \<noteq> ''Linker'' \<and> indicConjunctBreak \<noteq> ''Consonant''
               then Inl (UnrecognizedInCB indicConjunctBreak firstCp lastCp)
               else
                 let cb = (if indicConjunctBreak = ''Linker'' then cbInCBLinker
                           else if indicConjunctBreak = ''Consonant'' then cbInCBConsonant
                           else cb) in
                 case eaWidth eastAsian of
                   None \<Rightarrow> Inl (UnrecognizedEa eastAsian firstCp lastCp)
                 | Some width \<Rightarrow>
                     let width = (if prefix ''M'' generalCategory \<or> generalCategory = ''Cf''
                                  then cwZeroWidth else width)
                     in Inr (trieValue cb width))"

text \<open>The loop over the \<^verbatim>\<open>Char\<close> entries of one group, and the loop over the groups.\<close>

fun extractChars :: "Group \<Rightarrow> UCDChar list \<Rightarrow> TrieType list \<Rightarrow> GenError + TrieType list" where
  "extractChars grp [] values = Inr values"
| "extractChars grp (char # chars) values =
     (case charValue grp char of
        Inl e \<Rightarrow> Inl e
      | Inr v \<Rightarrow>
          (case fillSlice values (fst (charRange char)) (snd (charRange char) + 1) v of
             Inl e \<Rightarrow> Inl e
           | Inr values' \<Rightarrow> extractChars grp chars values'))"

fun extractGroups :: "Group list \<Rightarrow> TrieType list \<Rightarrow> GenError + TrieType list" where
  "extractGroups [] values = Inr values"
| "extractGroups (grp # grps) values =
     (case extractChars grp (Chars grp) values of
        Inl e \<Rightarrow> Inl e
      | Inr values' \<Rightarrow> extractGroups grps values')"

definition extractValuesFromUCD :: "UCD \<Rightarrow> GenError + TrieType list" where
  "extractValuesFromUCD ucd =
     (case extractGroups (Repertoire_Group ucd)
             (fillRange (replicate 1114112 0) (trieValue cbOther cwNarrow)) of
        Inl e \<Rightarrow> Inl e
      | Inr values \<Rightarrow>
          (case fillSlice values 0x2500 (0x259F + 1) (trieValue cbOther cwNarrow) of
             Inl e \<Rightarrow> Inl e
           | Inr values' \<Rightarrow> fillSlice values' 0xFE0F (0xFE0F + 1) (trieValue cbExtend cwWide)))"

text \<open>
  The conditions under which the specification says a record makes the extraction fail,
  in its words: a GCB value outside the recognized set, an InCB value outside
  \<open>{None, Extend, Linker, Consonant}\<close>, an East_Asian_Width value outside
  \<open>{N, Na, H, F, W, A}\<close>, ExtPict = Y while the GCB-derived category is not Other,
  InCB = Linker while the category is not Extend, or InCB = Consonant while the category
  is not Other. The category of the last two conditions is the current one: the
  GCB-derived category, recategorized to ExtendedPictographic when ExtPict = Y.
\<close>

definition currentCategory :: "Group \<Rightarrow> UCDChar \<Rightarrow> ClusterBreak option" where
  "currentCategory grp char =
     (if coalesce (ExtendedPictographic char) (ExtendedPictographic grp) = ''Y''
      then Some cbExtPic
      else gcbCategory (coalesce (GraphemeClusterBreak char) (GraphemeClusterBreak grp)))"

definition offendingRecord :: "Group \<Rightarrow> UCDChar \<Rightarrow> bool" where
  "offendingRecord grp char \<longleftrightarrow>
     (let gcb = coalesce (GraphemeClusterBreak char) (GraphemeClusterBreak grp);
          incb = coalesce (IndicConjunctBreak char) (IndicConjunctBreak grp);
          extPict = coalesce (ExtendedPictographic char) (ExtendedPictographic grp);
          ea = coalesce (EastAsian char) (EastAsian grp)
      in gcb \<notin> set [''XX'', ''CR'', ''LF'', ''CN'', ''EX'', ''SM'', ''PP'', ''ZWJ'', ''RI'',
                     ''L'', ''V'', ''T'', ''LV'', ''LVT'']
         \<or> incb \<notin> set [''None'', ''Extend'', ''Linker'', ''Consonant'']
         \<or> ea \<notin> set [''N'', ''Na'', ''H'', ''F'', ''W'', ''A'']
         \<or> (extPict = ''Y'' \<and> gcbCategory gcb \<noteq> Some cbOther)
         \<or> (incb = ''Linker'' \<and> currentCategory grp char \<noteq> Some cbExtend)
         \<or> (incb = ''Consonant'' \<and> currentCategory grp char \<noteq> Some cbOther))"

text \<open>The records of a UCD, each with its group, in the order they are processed.\<close>

definition records :: "UCD \<Rightarrow> (Group \<times> UCDChar) list" where
  "records ucd = concat (map (\<lambda>grp. map (Pair grp) (Chars grp)) (Repertoire_Group ucd))"

text \<open>The slice \<^verbatim>\<open>values[firstCp:lastCp+1]\<close> of the record lies inside the array.\<close>

definition rangeInArray :: "UCDChar \<Rightarrow> bool" where
  "rangeInArray char \<longleftrightarrow>
     0 \<le> fst (charRange char) \<and> fst (charRange char) \<le> snd (charRange char) + 1
     \<and> snd (charRange char) + 1 \<le> 1114112"

text \<open>The code-point range that an error names.\<close>

fun errorRange :: "GenError \<Rightarrow> (int \<times> int) option" where
  "errorRange Panic = None"
| "errorRange Diverged = None"
| "errorRange (UnrecognizedGCB v firstCp lastCp) = Some (firstCp, lastCp)"
| "errorRange (UnexpectedExtPict v firstCp lastCp) = Some (firstCp, lastCp)"
| "errorRange (UnexpectedLinker v firstCp lastCp) = Some (firstCp, lastCp)"
| "errorRange (UnexpectedConsonant v firstCp lastCp) = Some (firstCp, lastCp)"
| "errorRange (UnrecognizedInCB v firstCp lastCp) = Some (firstCp, lastCp)"
| "errorRange (UnrecognizedEa v firstCp lastCp) = Some (firstCp, lastCp)"

text \<open>Sample records: a group of combining marks (General_Category Mn) whose
  East_Asian_Width is W, an entry for a single code point that inherits every attribute
  from its group, an entry for the range 5 to 7 with the unknown GCB value ZZ, and a UCD
  made of the group with given entries.\<close>

definition combiningGroup :: Group where
  "combiningGroup = \<lparr>GeneralCategory = ''Mn'', GraphemeClusterBreak = ''EX'',
     IndicConjunctBreak = ''None'', ExtendedPictographic = ''N'', EastAsian = ''W'',
     Chars = []\<rparr>"

definition charAt :: "int \<Rightarrow> UCDChar" where
  "charAt cp = \<lparr>GeneralCategory = '''', GraphemeClusterBreak = '''',
     IndicConjunctBreak = '''', ExtendedPictographic = '''', EastAsian = '''',
     Codepoint = cp, FirstCodepoint = 0, LastCodepoint = 0\<rparr>"

definition rangeZZ :: UCDChar where
  "rangeZZ = \<lparr>GeneralCategory = '''', GraphemeClusterBreak = ''ZZ'',
     IndicConjunctBreak = '''', ExtendedPictographic = '''', EastAsian = '''',
     Codepoint = 0, FirstCodepoint = 5, LastCodepoint = 7\<rparr>"

definition ucdOf :: "UCDChar list \<Rightarrow> UCD" where
  "ucdOf cs = \<lparr>Description = ''sample'', Repertoire_Group = [combiningGroup\<lparr>Chars := cs\<rparr>]\<rparr>"

section \<open>Trie compression\<close>

text \<open>Go's \<^verbatim>\<open>int\<close> arithmetic wraps around at 64 bits.\<close>

definition wrap64 :: "int \<Rightarrow> int" where
  "wrap64 x = (x + 2 ^ 63) mod 2 ^ 64 - 2 ^ 63"

definition MaxInt :: int where
  "MaxInt = 2 ^ 63 - 1"

definition MaxInt32 :: int where
  "MaxInt32 = 2 ^ 31 - 1"

record Stage =
  Values :: "TrieType list"
  Shift :: int
  Mask :: int
  Bits :: int

record Trie =
  Stages :: "Stage list"
  TotalSize :: int

text \<open>
  \<^verbatim>\<open>findExisting\<close> and the cache key of \<^verbatim>\<open>buildTrie\<close> look at a slice of \<^verbatim>\<open>TrieType\<close>
  through its bytes (\<^verbatim>\<open>unsafe.Slice\<close>, \<^verbatim>\<open>unsafe.String\<close>): four bytes per element, in the
  byte order of the machine, which is a parameter of the model.
\<close>

datatype ByteOrder = LittleEndian | BigEndian

definition wordBytes :: "ByteOrder \<Rightarrow> TrieType \<Rightarrow> 8 word list" where
  "wordBytes bo w =
     (case bo of
        LittleEndian \<Rightarrow> [ucast w, ucast (drop_bit 8 w), ucast (drop_bit 16 w), ucast (drop_bit 24 w)]
      | BigEndian \<Rightarrow> [ucast (drop_bit 24 w), ucast (drop_bit 16 w), ucast (drop_bit 8 w), ucast w])"

definition sliceBytes :: "ByteOrder \<Rightarrow> TrieType list \<Rightarrow> 8 word list" where
  "sliceBytes bo s = concat (map (wordBytes bo) s)"

text \<open>\<^verbatim>\<open>bytes.Index(s, sep)\<close>: the index of the first instance of \<open>sep\<close> in \<open>s\<close>, or -1.\<close>

fun bytesIndex :: "8 word list \<Rightarrow> 8 word list \<Rightarrow> int" where
  "bytesIndex [] sep = (if sep = [] then 0 else - 1)"
| "bytesIndex (b # s) sep =
     (if prefix sep (b # s) then 0
      else let i = bytesIndex s sep in if i = - 1 then - 1 else i + 1)"

text \<open>
  The loop of \<^verbatim>\<open>findExisting\<close>, with \<open>h\<close> and \<open>n\<close> the bytes of haystack and needle, \<open>s\<close>
  the size of an element and \<open>i\<close> the loop variable:
  \<^verbatim>\<open>for { i = bytes.Index(h[i:], n); if i == -1 { return -1 }; if i%s == 0 { return i / s } }\<close>.
  The loop has no bound of its own; not returning is \<open>None\<close>.
\<close>

partial_function (option) findExistingLoop ::
  "8 word list \<Rightarrow> 8 word list \<Rightarrow> int \<Rightarrow> int \<Rightarrow> int option"
where
  "findExistingLoop h n s i =
     (let i' = bytesIndex (drop (nat i) h) n
      in if i' = - 1 then Some (- 1)
         else if i' mod s = 0 then Some (i' div s)
         else findExistingLoop h n s i')"

declare findExistingLoop.simps [code]

definition findExisting :: "ByteOrder \<Rightarrow> TrieType list \<Rightarrow> TrieType list \<Rightarrow> int option" where
  "findExisting bo haystack needle =
     (if length haystack = 0 \<or> length needle = 0 then Some (- 1)
      else findExistingLoop (sliceBytes bo haystack) (sliceBytes bo needle) 4 0)"

text \<open>\<^verbatim>\<open>measureOverlap\<close>: the loop counts \<open>overlap\<close> down from
  \<^verbatim>\<open>min(len(prev), len(next))\<close>; at 0 the two empty slices are equal.\<close>

fun measureOverlapFrom :: "TrieType list \<Rightarrow> TrieType list \<Rightarrow> nat \<Rightarrow> nat" where
  "measureOverlapFrom prev next 0 = 0"
| "measureOverlapFrom prev next (Suc overlap) =
     (if drop (length prev - Suc overlap) prev = take (Suc overlap) next then Suc overlap
      else measureOverlapFrom prev next overlap)"

definition measureOverlap :: "TrieType list \<Rightarrow> TrieType list \<Rightarrow> nat" where
  "measureOverlap prev next = measureOverlapFrom prev next (min (length prev) (length next))"

text \<open>
  The inner loop of \<^verbatim>\<open>buildTrie\<close> over the chunks, for a positive \<open>chunkSize\<close>; \<open>i\<close> is
  the loop variable and \<open>cache\<close>, \<open>compressed\<close> and \<open>offsets\<close> are the variables the loop
  updates. The key of the cache is the string of the chunk's bytes. If \<^verbatim>\<open>findExisting\<close>
  did not return, neither would the loop: the error \<open>Diverged\<close>.
\<close>

function chunkLoop ::
  "ByteOrder \<Rightarrow> TrieType list \<Rightarrow> nat \<Rightarrow> nat \<Rightarrow> (8 word list \<rightharpoonup> TrieType)
     \<Rightarrow> TrieType list \<Rightarrow> TrieType list \<Rightarrow> GenError + (TrieType list \<times> TrieType list)"
where
  "chunkLoop bo uncompressed chunkSize i cache compressed offsets =
     (if i < length uncompressed \<and> 0 < chunkSize then
        let chunk = take (min (length uncompressed) (i + chunkSize) - i) (drop i uncompressed);
            key = sliceBytes bo chunk
        in case cache key of
             Some offset \<Rightarrow>
               chunkLoop bo uncompressed chunkSize (i + chunkSize) cache compressed
                 (offsets @ [offset])
           | None \<Rightarrow>
               (case findExisting bo compressed chunk of
                  None \<Rightarrow> Inl Diverged
                | Some existing \<Rightarrow>
                    if existing \<noteq> - 1 then
                      chunkLoop bo uncompressed chunkSize (i + chunkSize)
                        (cache(key \<mapsto> word_of_int existing)) compressed
                        (offsets @ [word_of_int existing])
                    else
                      chunkLoop bo uncompressed chunkSize (i + chunkSize)
                        (cache(key \<mapsto>
                           word_of_nat (length (compressed @ drop (measureOverlap compressed chunk) chunk)
                                         - length chunk)))
                        (compressed @ drop (measureOverlap compressed chunk) chunk)
                        (offsets @ [word_of_nat
                           (length (compressed @ drop (measureOverlap compressed chunk) chunk)
                             - length chunk)]))
      else Inr (compressed, offsets))"
  by pat_completeness auto
termination
  by (relation "measure (\<lambda>(bo, uncompressed, chunkSize, i, cache, compressed, offsets).
        length uncompressed - i)") auto

declare chunkLoop.simps [simp del]

text \<open>
  One round of the outer loop of \<^verbatim>\<open>buildTrie\<close>, for one \<open>shift\<close>: the compressed values
  and the offsets. \<^verbatim>\<open>1 << shift\<close> panics for a negative shift and wraps around from 63
  on. With a chunk size that is not positive the first round of the inner loop panics
  (the chunk is empty or its bounds are negative); on an empty array the inner loop does
  not run.
\<close>

definition chunkSizeOf :: "int \<Rightarrow> int" where
  "chunkSizeOf shift = wrap64 (2 ^ nat shift)"

definition buildStage ::
  "ByteOrder \<Rightarrow> TrieType list \<Rightarrow> int \<Rightarrow> GenError + (TrieType list \<times> TrieType list)"
where
  "buildStage bo uncompressed shift =
     (if shift < 0 then Inl Panic
      else if uncompressed = [] then Inr ([], [])
      else if chunkSizeOf shift \<le> 0 then Inl Panic
      else chunkLoop bo uncompressed (nat (chunkSizeOf shift)) 0 Map.empty [] [])"

text \<open>The outer loop of \<^verbatim>\<open>buildTrie\<close> over the shifts: the stages appended so far, the
  remaining array and the cumulative shift.\<close>

fun buildStages ::
  "ByteOrder \<Rightarrow> TrieType list \<Rightarrow> int list \<Rightarrow> int \<Rightarrow> Stage list
     \<Rightarrow> GenError + (Stage list \<times> TrieType list \<times> int)"
where
  "buildStages bo uncompressed [] cumulativeShift stages =
     Inr (stages, uncompressed, cumulativeShift)"
| "buildStages bo uncompressed (shift # shifts) cumulativeShift stages =
     (case buildStage bo uncompressed shift of
        Inl e \<Rightarrow> Inl e
      | Inr (compressed, offsets) \<Rightarrow>
          buildStages bo offsets shifts (wrap64 (cumulativeShift + shift))
            (stages @ [\<lparr>Values = compressed, Shift = cumulativeShift,
                         Mask = wrap64 (chunkSizeOf shift - 1), Bits = 0\<rparr>]))"

text \<open>The loop that sets \<^verbatim>\<open>Bits\<close>; \<^verbatim>\<open>slices.Max\<close> panics on an empty slice.\<close>

definition bitsFor :: "TrieType \<Rightarrow> int" where
  "bitsFor m = (if m \<le> 0xff then 8 else if m \<le> 0xffff then 16 else 32)"

fun setBits :: "Stage list \<Rightarrow> GenError + Stage list" where
  "setBits [] = Inr []"
| "setBits (s # stages) =
     (if Values s = [] then Inl Panic
      else case setBits stages of
             Inl e \<Rightarrow> Inl e
           | Inr stages' \<Rightarrow> Inr (s\<lparr>Bits := bitsFor (Max (set (Values s)))\<rparr> # stages'))"

text \<open>The loop that adds up \<^verbatim>\<open>totalSize\<close>.\<close>

fun totalSizeFrom :: "int \<Rightarrow> Stage list \<Rightarrow> int" where
  "totalSizeFrom totalSize [] = totalSize"
| "totalSizeFrom totalSize (s # stages) =
     totalSizeFrom (wrap64 (totalSize + (Bits s div 8) * int (length (Values s)))) stages"

definition buildTrie :: "ByteOrder \<Rightarrow> TrieType list \<Rightarrow> int list \<Rightarrow> GenError + Trie" where
  "buildTrie bo uncompressed shifts =
     (case buildStages bo uncompressed shifts 0 [] of
        Inl e \<Rightarrow> Inl e
      | Inr (stages, uncompressed', cumulativeShift) \<Rightarrow>
          (case setBits (rev (stages @ [\<lparr>Values = uncompressed', Shift = cumulativeShift,
                                          Mask = MaxInt32, Bits = 0\<rparr>])) of
             Inl e \<Rightarrow> Inl e
           | Inr stages' \<Rightarrow> Inr \<lparr>Stages = stages', TotalSize = totalSizeFrom 0 stages'\<rparr>))"

text \<open>
  The lookup that \<^verbatim>\<open>run\<close> performs for its sanity check, and that it prints as
  \<^verbatim>\<open>ucdLookup\<close>: \<^verbatim>\<open>v = s.Values[int(v)+((cp>>s.Shift)&s.Mask)]\<close> for each stage in turn,
  starting from \<open>v = 0\<close>. A negative shift count and an index outside \<^verbatim>\<open>Values\<close> panic.
\<close>

fun lookupFrom :: "TrieType \<Rightarrow> Stage list \<Rightarrow> int \<Rightarrow> GenError + TrieType" where
  "lookupFrom v [] cp = Inr v"
| "lookupFrom v (s # stages) cp =
     (if Shift s < 0 then Inl Panic
      else let index = uint v + ((drop_bit (nat (Shift s)) cp) AND Mask s)
           in if 0 \<le> index \<and> index < int (length (Values s))
              then lookupFrom (Values s ! nat index) stages cp
              else Inl Panic)"

definition trieLookup :: "Trie \<Rightarrow> int \<Rightarrow> GenError + TrieType" where
  "trieLookup trie cp = lookupFrom 0 (Stages trie) cp"

text \<open>
  \<^verbatim>\<open>buildBestTrie\<close>. \<open>itersFor\<close> is the loop that multiplies \<^verbatim>\<open>iters\<close>, \<open>shiftsFor\<close> the
  loop of goroutine \<open>i\<close> that fills \<^verbatim>\<open>shifts\<close> (Go's \<^verbatim>\<open>/\<close> and \<^verbatim>\<open>%\<close> truncate), and
  \<open>receiveLoop\<close> the loop that receives the results and keeps the smallest trie. The
  goroutines send their results in an order that the program does not determine: the
  model takes that order as the list \<open>order\<close> of the goroutine indices, an arrangement of
  \<open>0 ..< iters\<close>. A panic in a goroutine ends the program.
\<close>

definition tdiv :: "int \<Rightarrow> int \<Rightarrow> int" where
  "tdiv a b = sgn a * sgn b * (\<bar>a\<bar> div \<bar>b\<bar>)"

definition tmod :: "int \<Rightarrow> int \<Rightarrow> int" where
  "tmod a b = a - b * tdiv a b"

fun itersFor :: "nat \<Rightarrow> int \<Rightarrow> int" where
  "itersFor 0 delta = 1"
| "itersFor (Suc n) delta = wrap64 (itersFor n delta * delta)"

fun shiftsFor :: "nat \<Rightarrow> int \<Rightarrow> int \<Rightarrow> int \<Rightarrow> int list" where
  "shiftsFor 0 minShift delta i = []"
| "shiftsFor (Suc n) minShift delta i =
     wrap64 (minShift + tmod i delta) # shiftsFor n minShift delta (tdiv i delta)"

fun receiveLoop :: "(GenError + Trie) list \<Rightarrow> Trie \<Rightarrow> GenError + Trie" where
  "receiveLoop [] bestTrie = Inr bestTrie"
| "receiveLoop (result # results) bestTrie =
     (case result of
        Inl e \<Rightarrow> Inl e
      | Inr t \<Rightarrow> receiveLoop results (if TotalSize bestTrie > TotalSize t then t else bestTrie))"

definition buildBestTrie ::
  "ByteOrder \<Rightarrow> TrieType list \<Rightarrow> int \<Rightarrow> int \<Rightarrow> int \<Rightarrow> nat list \<Rightarrow> GenError + Trie"
where
  "buildBestTrie bo uncompressed minShift maxShift stages order =
     (let delta = wrap64 (maxShift - minShift + 1)
      in receiveLoop
           (map (\<lambda>i. if stages - 1 < 0 then Inl Panic
                      else buildTrie bo uncompressed
                             (shiftsFor (nat (stages - 1)) minShift delta (int i))) order)
           \<lparr>Stages = [], TotalSize = MaxInt\<rparr>)"

definition iters :: "int \<Rightarrow> int \<Rightarrow> int \<Rightarrow> int" where
  "iters minShift maxShift stages = itersFor (nat (stages - 1)) (wrap64 (maxShift - minShift + 1))"

text \<open>A dense array of 1114112 classification values: {Control, ZeroWidth} for the code
  point 0 and {Other, ZeroWidth} for every other code point.\<close>

definition sparseValues :: "TrieType list" where
  "sparseValues =
     trieValue cbControl cwZeroWidth # replicate 1114111 (trieValue cbOther cwZeroWidth)"

section \<open>Properties of the join rules\<close>

lemma cb_in_all: "c \<in> set allClusterBreaks"
  by (cases c) (simp_all add: allClusterBreaks_def)

lemma cbValue_enumerates: "map cbValue allClusterBreaks = [0..<cbCount]"
  by (simp add: allClusterBreaks_def cbCount_def upt_rec)

lemma cbValue_inj: "cbValue a = cbValue b \<Longrightarrow> a = b"
  by (cases a; cases b; simp)

lemma Len8_3: "Len8 3 = 2"
  by (simp add: Len8_def Len.simps)

lemma replicate_16: "replicate 16 x = [x, x, x, x, x, x, x, x, x, x, x, x, x, x, x, x]"
  by (simp add: numeral_eq_Suc)

lemma prepareRulesTable_JoinRules:
  "prepareRulesTable JoinRules =
     Inr [[63963087, 268435455, 63963087, 63962959, 12, 62964687, 63901647,
           63913935, 63901647, 63913935, 51380175, 63963087, 63963087, 13631439, 0, 0],
          [63963087, 268435455, 63963087, 63963087, 12, 62964687, 63901647,
           63913935, 63901647, 63913935, 51380175, 63963087, 63963087, 13631439, 0, 0]]"
  by (simp add: JoinRules_def \<Omega>_def replicate_16)

lemma s_joinRules_eq:
  "s_joinRules =
     [[63963087, 268435455, 63963087, 63962959, 12, 62964687, 63901647,
       63913935, 63901647, 63913935, 51380175, 63963087, 63963087, 13631439, 0, 0],
      [63963087, 268435455, 63963087, 63963087, 12, 62964687, 63901647,
       63913935, 63901647, 63913935, 51380175, 63963087, 63963087, 13631439, 0, 0]]"
  by (simp add: s_joinRules_def prepareRulesTable_JoinRules)

lemma unat_and_15: "unat ((x :: 8 word) AND 15) < 16"
proof -
  have "unat (x AND 15) \<le> unat (15 :: 8 word)"
    by (rule word_and_le1 [THEN word_le_nat_alt [THEN iffD1]])
  then show ?thesis by simp
qed

lemma trieValue_nibble: "(ucast (trieValue c w) :: 8 word) AND 15 = of_nat (cbValue c)"
  by (cases c; cases w; simp add: trieValue_def)

lemma ucdGraphemeJoins_masked:
  "ucdGraphemeJoins state lead trail = ucdGraphemeJoins state (lead AND 15) (trail AND 15)"
  by (simp add: ucdGraphemeJoins_def and.assoc)

text \<open>The packed table, read by the generated function, gives back the entries of
  \<^verbatim>\<open>JoinRules\<close>.\<close>

lemma joins_table_check:
  "list_all (\<lambda>s. list_all (\<lambda>l. list_all (\<lambda>t.
      ucdGraphemeJoins (of_nat s) (of_nat (cbValue l)) (of_nat (cbValue t))
        = Some (JoinRules ! s ! cbValue l ! cbValue t))
     allClusterBreaks) allClusterBreaks) [0, 1]"
  by (simp add: allClusterBreaks_def ucdGraphemeJoins_def s_joinRules_eq Len8_3
      JoinRules_def \<Omega>_def)

lemma ucdGraphemeJoins_cbValue:
  assumes "s < 2"
  shows "ucdGraphemeJoins (of_nat s) (of_nat (cbValue l)) (of_nat (cbValue t))
           = Some (joinRule s l t)"
proof -
  have "s \<in> set [0, 1]" using assms by auto
  then show ?thesis
    using joins_table_check cb_in_all [of l] cb_in_all [of t]
    unfolding list_all_iff joinRule_def by blast
qed

lemma ucdGraphemeJoins_trieValue:
  assumes "s < 2"
  shows "ucdGraphemeJoins (of_nat s) (ucast (trieValue l w1)) (ucast (trieValue t w2))
           = Some (joinRule s l t)"
  using ucdGraphemeJoins_cbValue [OF assms, of l t]
  by (subst ucdGraphemeJoins_masked) (simp add: trieValue_nibble)

lemma joinRule_tables_agree:
  "(lead, trail) \<noteq> (cbRI, cbRI) \<Longrightarrow> joinRule 0 lead trail = joinRule 1 lead trail"
  by (cases lead; cases trail; simp add: joinRule_def JoinRules_def)

lemma joinRule_default_join:
  "joinRule 0 lead trail \<noteq> \<Omega> \<Longrightarrow> (lead, trail) \<noteq> (cbRI, cbRI) \<Longrightarrow> joinRule 0 lead trail = 0"
  by (cases lead; cases trail; simp add: joinRule_def JoinRules_def \<Omega>_def)

lemma joinRule_post_join: "joinRule (Suc 0) lead trail \<noteq> \<Omega> \<Longrightarrow> joinRule (Suc 0) lead trail = 0"
  by (cases lead; cases trail; simp add: joinRule_def JoinRules_def \<Omega>_def)

lemma joinRule_RI_RI: "joinRule 0 cbRI cbRI = 1" "joinRule (Suc 0) cbRI cbRI = \<Omega>"
  by (simp_all add: joinRule_def JoinRules_def)

lemma joinRule_Control_lead: "s < 2 \<Longrightarrow> joinRule s cbControl c = \<Omega>"
  by (cases c; simp add: joinRule_def JoinRules_def less_2_cases_iff; fastforce)

lemma joinRule_Control_trail: "s < 2 \<Longrightarrow> joinRule s c cbControl = \<Omega>"
  by (cases c; simp add: joinRule_def JoinRules_def less_2_cases_iff; fastforce)

text \<open>
  C5. \<^verbatim>\<open>JoinRules\<close> consists of exactly two tables, each with one row and one column per
  cluster-break category (the 14 categories are numbered 0 to 13 by \<open>cbValue\<close>, and every
  table has 14 rows of 14 entries). The two tables agree on every pair of categories except
  (RI, RI). In the base table the entry for (RI, RI) is 1: a join whose destination state is
  the second table. In the second table that entry is \<open>\<Omega>\<close>, a break. Every other entry that
  is not a break is 0: a join whose destination state is the base table.
\<close>

theorem JoinRules_two_states:
  "length JoinRules = 2
   \<and> (\<forall>table \<in> set JoinRules. length table = cbCount \<and> (\<forall>row \<in> set table. length row = cbCount))
   \<and> map cbValue allClusterBreaks = [0..<cbCount] \<and> (\<forall>c. c \<in> set allClusterBreaks)
   \<and> (\<forall>lead trail. (lead, trail) \<noteq> (cbRI, cbRI) \<longrightarrow> joinRule 0 lead trail = joinRule 1 lead trail)
   \<and> joinRule 0 cbRI cbRI = 1
   \<and> joinRule 1 cbRI cbRI = \<Omega>
   \<and> (\<forall>s lead trail. s < 2 \<longrightarrow> (s, lead, trail) \<noteq> (0, cbRI, cbRI) \<longrightarrow>
         joinRule s lead trail \<noteq> \<Omega> \<longrightarrow> joinRule s lead trail = 0)"
proof -
  have shape: "length JoinRules = 2
     \<and> (\<forall>table \<in> set JoinRules. length table = cbCount \<and> (\<forall>row \<in> set table. length row = cbCount))"
    by (simp add: JoinRules_def cbCount_def)
  have joins: "joinRule s lead trail = 0"
    if "s < 2" "(s, lead, trail) \<noteq> (0, cbRI, cbRI)" "joinRule s lead trail \<noteq> \<Omega>"
    for s lead trail
  proof (cases "s = 0")
    case True
    with that show ?thesis using joinRule_default_join [of lead trail] by auto
  next
    case False
    with that have "s = Suc 0" by simp
    with that show ?thesis using joinRule_post_join [of lead trail] by auto
  qed
  show ?thesis
    using shape cbValue_enumerates cb_in_all joinRule_tables_agree joinRule_RI_RI joins
    by simp
qed

theorem JoinRules_two_states_witness:
  "(cbPrepend, cbExtPic) \<noteq> (cbRI, cbRI)
   \<and> joinRule 0 cbPrepend cbExtPic = joinRule 1 cbPrepend cbExtPic
   \<and> (1 :: nat) < 2 \<and> (1 :: nat, cbPrepend, cbExtPic) \<noteq> (0, cbRI, cbRI)
   \<and> joinRule 1 cbPrepend cbExtPic \<noteq> \<Omega>
   \<and> joinRule 1 cbPrepend cbExtPic = 0"
proof -
  have ne: "joinRule 1 cbPrepend cbExtPic \<noteq> \<Omega>"
    by (simp add: joinRule_def JoinRules_def \<Omega>_def)
  have "joinRule 0 cbPrepend cbExtPic = joinRule 1 cbPrepend cbExtPic"
    using JoinRules_two_states by blast
  moreover have "joinRule 1 cbPrepend cbExtPic = 0"
    using JoinRules_two_states ne by (metis one_less_numeral_iff semiring_norm(76) prod.inject zero_neq_one)
  ultimately show ?thesis using ne by simp
qed

text \<open>
  C8. In both states and for every category \<open>c\<close>, the verdict for Control followed by \<open>c\<close>
  and the verdict for \<open>c\<close> followed by Control is break, in \<^verbatim>\<open>JoinRules\<close> and in the
  generated \<^verbatim>\<open>ucdGraphemeJoins\<close> applied to classification values of these categories (of
  any width). This includes \<open>c\<close> = Prepend, Extend and ZWJ.
\<close>

theorem Control_always_breaks:
  assumes "s < 2"
  shows "joinRule s cbControl c = \<Omega> \<and> joinRule s c cbControl = \<Omega>
    \<and> ucdGraphemeJoins (of_nat s) (ucast (trieValue cbControl w1)) (ucast (trieValue c w2)) = Some \<Omega>
    \<and> ucdGraphemeJoins (of_nat s) (ucast (trieValue c w1)) (ucast (trieValue cbControl w2)) = Some \<Omega>
    \<and> ucdGraphemeDone \<Omega>"
  using assms
  by (simp add: ucdGraphemeJoins_trieValue joinRule_Control_lead joinRule_Control_trail
      ucdGraphemeDone_def)

theorem Control_always_breaks_witness:
  "(0 :: nat) < 2
   \<and> joinRule 0 cbPrepend cbControl = \<Omega> \<and> joinRule 0 cbControl cbExtend = \<Omega>
   \<and> ucdGraphemeJoins 0 (ucast (trieValue cbPrepend cwNarrow)) (ucast (trieValue cbControl cwNarrow)) = Some \<Omega>
   \<and> ucdGraphemeJoins 0 (ucast (trieValue cbControl cwNarrow)) (ucast (trieValue cbZWJ cwZeroWidth)) = Some \<Omega>"
proof -
  have h: "(0 :: nat) < 2" by simp
  show ?thesis
    using Control_always_breaks [OF h, of cbPrepend cwNarrow cwNarrow]
      Control_always_breaks [OF h, of cbExtend cwNarrow cwNarrow]
      Control_always_breaks [OF h, of cbZWJ cwNarrow cwZeroWidth]
    by simp
qed

text \<open>
  C10. \<^verbatim>\<open>prepareRulesTable(JoinRules)\<close> does not panic and gives two rows of exactly 16
  packed entries each. For a state of 0 or 1 and any bytes \<open>lead\<close> and \<open>trail\<close>,
  \<^verbatim>\<open>ucdGraphemeJoins\<close> reads inside the table. The packed entries for the leads 14 and 15
  are zero, and for these leads the function returns 0 for every trail.
\<close>

theorem ucdGraphemeJoins_total:
  "prepareRulesTable JoinRules = Inr s_joinRules
   \<and> length s_joinRules = 2 \<and> (\<forall>row \<in> set s_joinRules. length row = 16)
   \<and> (\<forall>state lead trail. state \<in> {0, 1} \<longrightarrow> (\<exists>v. ucdGraphemeJoins state lead trail = Some v))
   \<and> (\<forall>state lead trail. state \<in> {0, 1} \<longrightarrow> lead \<in> {14, 15} \<longrightarrow>
         s_joinRules ! unat state ! unat lead = 0 \<and> ucdGraphemeJoins state lead trail = Some 0)"
proof -
  have a: "prepareRulesTable JoinRules = Inr s_joinRules"
    by (simp add: s_joinRules_def prepareRulesTable_JoinRules)
  have b: "length s_joinRules = 2 \<and> (\<forall>row \<in> set s_joinRules. length row = 16)"
    by (simp add: s_joinRules_eq)
  have c: "\<exists>v. ucdGraphemeJoins state lead trail = Some v" if "state \<in> {0, 1}"
    for state lead trail
    using that unat_and_15 [of lead]
    by (auto simp add: ucdGraphemeJoins_def s_joinRules_eq Let_def)
  have d: "s_joinRules ! unat state ! unat lead = 0 \<and> ucdGraphemeJoins state lead trail = Some 0"
    if "state \<in> {0, 1}" "lead \<in> {14, 15}" for state lead trail
    using that by (auto simp add: ucdGraphemeJoins_def s_joinRules_eq Let_def)
  show ?thesis using a b c d by blast
qed

theorem ucdGraphemeJoins_total_witness:
  "(1 :: 8 word) \<in> {0, 1} \<and> (14 :: 8 word) \<in> {14, 15}
   \<and> (\<exists>v. ucdGraphemeJoins 1 255 200 = Some v)
   \<and> s_joinRules ! unat (1 :: 8 word) ! unat (14 :: 8 word) = 0
   \<and> ucdGraphemeJoins 1 14 3 = Some 0"
proof -
  have s: "(1 :: 8 word) \<in> {0, 1}" and l: "(14 :: 8 word) \<in> {14, 15}" by simp_all
  have "\<exists>v. ucdGraphemeJoins 1 255 200 = Some v"
    using ucdGraphemeJoins_total s by blast
  moreover have "s_joinRules ! unat (1 :: 8 word) ! unat (14 :: 8 word) = 0
      \<and> ucdGraphemeJoins 1 14 3 = Some 0"
    using ucdGraphemeJoins_total s l by blast
  ultimately show ?thesis using s l by blast
qed

section \<open>The grapheme scan on concrete texts\<close>

lemmas join_eval =
  ucdGraphemeJoins_def s_joinRules_eq Len8_3 \<Omega>_def trieValue_def ucdGraphemeDone_def

text \<open>
  C9. The code points U+0915, U+094D, U+094D, U+0924 have the categories Consonant, Linker,
  Linker, Consonant and the widths Narrow, ZeroWidth, ZeroWidth, Narrow. In the default
  state each of the three adjacent pairs joins (verdict 0), and \<^verbatim>\<open>GraphemeNext\<close> from
  offset 0 returns the end offset 4 and the width 2, as the test
  \<^verbatim>\<open>DevanagariConjunctLinker\<close> expects.
\<close>

theorem Devanagari_conjunct_single_cluster:
  "ucdGraphemeJoins 0 (ucast (trieValue cbInCBConsonant cwNarrow))
       (ucast (trieValue cbInCBLinker cwZeroWidth)) = Some 0
   \<and> ucdGraphemeJoins 0 (ucast (trieValue cbInCBLinker cwZeroWidth))
       (ucast (trieValue cbInCBLinker cwZeroWidth)) = Some 0
   \<and> ucdGraphemeJoins 0 (ucast (trieValue cbInCBLinker cwZeroWidth))
       (ucast (trieValue cbInCBConsonant cwNarrow)) = Some 0
   \<and> GraphemeNext (classify [(cbInCBConsonant, cwNarrow), (cbInCBLinker, cwZeroWidth),
         (cbInCBLinker, cwZeroWidth), (cbInCBConsonant, cwNarrow)]) 0 = Some (4, 2)"
  by (simp add: GraphemeNext_def classify_def clusterWidth_def ucdToCharacterWidth_def join_eval)

section \<open>Forward and backward scans\<close>

text \<open>
  Within one cluster the scan follows the two-state table; as long as no three
  RegionalIndicator code points are consecutive, the second state is only ever consulted
  on pairs where both tables agree, so that a cluster ends exactly where the base table
  breaks, in either direction.
\<close>

declare scanForward.simps [simp del] scanBackward.simps [simp del]

lemma classify_Cons:
  "classify (p # ps) = ucast (trieValue (fst p) (snd p)) # classify ps"
  by (simp add: classify_def case_prod_unfold)

lemma length_classify: "length (classify cps) = length cps"
  by (simp add: classify_def)

lemma noThreeRI_tail: "noThreeRI (a # xs) \<Longrightarrow> noThreeRI xs"
  by (auto simp add: noThreeRI_def sublist_Cons_right)

lemma noThreeRI_RI_RI: "noThreeRI (cbRI # cbRI # xs) \<Longrightarrow> xs = [] \<or> hd xs \<noteq> cbRI"
  by (cases xs) (auto simp add: noThreeRI_def sublist_Cons_right)

lemma noThreeRI_sublist: "noThreeRI xs \<Longrightarrow> sublist ys xs \<Longrightarrow> noThreeRI ys"
  unfolding noThreeRI_def using sublist_order.order_trans by blast

lemma noThreeRI_rev: "noThreeRI (rev xs) \<longleftrightarrow> noThreeRI xs"
proof -
  have "sublist [cbRI, cbRI, cbRI] (rev xs) \<longleftrightarrow> sublist (rev [cbRI, cbRI, cbRI]) xs"
    by (rule sublist_rev_right)
  then show ?thesis by (simp add: noThreeRI_def)
qed

lemma joinedRun_runBy:
  fixes J :: "8 word \<Rightarrow> 8 word \<Rightarrow> 8 word \<Rightarrow> 8 word option"
    and R :: "nat \<Rightarrow> ClusterBreak \<Rightarrow> ClusterBreak \<Rightarrow> 8 word"
  assumes J: "\<And>s a b wa wb. s < 2 \<Longrightarrow>
        J (of_nat s) (ucast (trieValue a wa)) (ucast (trieValue b wb)) = Some (R s a b)"
    and agree: "\<And>a b. (a, b) \<noteq> (cbRI, cbRI) \<Longrightarrow> R (Suc 0) a b = R 0 a b"
    and join0: "\<And>a b. R 0 a b \<noteq> \<Omega> \<Longrightarrow> (a, b) \<noteq> (cbRI, cbRI) \<Longrightarrow> R 0 a b = 0"
    and riri: "R 0 cbRI cbRI = 1"
    and no3: "noThreeRI (fst p # map fst ps)"
    and st: "st = 0 \<or> (st = 1 \<and> (ps = [] \<or> fst (hd ps) \<noteq> cbRI))"
  shows "joinedRun J st (ucast (trieValue (fst p) (snd p))) (classify ps)
           = Some (runBy (\<lambda>a b. R 0 a b = \<Omega>) (fst p) (map fst ps))"
  using no3 st
proof (induction ps arbitrary: p st)
  case Nil
  then show ?case by (simp add: classify_def)
next
  case (Cons q qs)
  have tail: "noThreeRI (fst q # map fst qs)"
    using noThreeRI_tail [of "fst p" "fst q # map fst qs"] Cons.prems(1) by simp
  have J0: "J 0 (ucast (trieValue (fst p) (snd p))) (ucast (trieValue (fst q) (snd q)))
      = Some (R 0 (fst p) (fst q))"
    using J [of 0 "fst p" "snd p" "fst q" "snd q"] by simp
  have J1: "J 1 (ucast (trieValue (fst p) (snd p))) (ucast (trieValue (fst q) (snd q)))
      = Some (R (Suc 0) (fst p) (fst q))"
    using J [of "Suc 0" "fst p" "snd p" "fst q" "snd q"] by simp
  have next0: "joinedRun J 0 (ucast (trieValue (fst q) (snd q))) (classify qs)
      = Some (runBy (\<lambda>a b. R 0 a b = \<Omega>) (fst q) (map fst qs))"
    using Cons.IH [OF tail, of 0] by simp
  from Cons.prems(2) consider (zero) "st = 0" | (one) "st = 1" "fst q \<noteq> cbRI"
    by auto
  then show ?case
  proof cases
    case zero
    show ?thesis
    proof (cases "R 0 (fst p) (fst q) = \<Omega>")
      case True
      then show ?thesis
        by (simp add: classify_Cons zero J0 ucdGraphemeDone_def)
    next
      case False
      show ?thesis
      proof (cases "(fst p, fst q) = (cbRI, cbRI)")
        case True
        then have "noThreeRI (cbRI # cbRI # map fst qs)" using Cons.prems(1) by simp
        then have "qs = [] \<or> fst (hd qs) \<noteq> cbRI"
          using noThreeRI_RI_RI [of "map fst qs"] by (cases qs) auto
        then have "joinedRun J 1 (ucast (trieValue (fst q) (snd q))) (classify qs)
            = Some (runBy (\<lambda>a b. R 0 a b = \<Omega>) (fst q) (map fst qs))"
          using Cons.IH [OF tail, of 1] by simp
        moreover have "R 0 (fst p) (fst q) = 1" using True riri by simp
        ultimately show ?thesis
          using False by (simp add: classify_Cons zero J0 ucdGraphemeDone_def)
      next
        case ne: False
        have "R 0 (fst p) (fst q) = 0" using join0 [OF False ne] .
        then show ?thesis
          using False next0 by (simp add: classify_Cons zero J0 ucdGraphemeDone_def)
      qed
    qed
  next
    case one
    have same: "R (Suc 0) (fst p) (fst q) = R 0 (fst p) (fst q)"
      using agree [of "fst p" "fst q"] one(2) by simp
    show ?thesis
    proof (cases "R 0 (fst p) (fst q) = \<Omega>")
      case True
      then show ?thesis
        by (simp add: classify_Cons one J1 same ucdGraphemeDone_def)
    next
      case False
      have "R 0 (fst p) (fst q) = 0"
        using join0 [OF False] one(2) by simp
      then show ?thesis
        using False next0 by (simp add: classify_Cons one J1 same ucdGraphemeDone_def)
    qed
  qed
qed

lemma forward_run:
  assumes "noThreeRI (fst p # map fst ps)"
  shows "joinedRun ucdGraphemeJoins 0 (ucast (trieValue (fst p) (snd p))) (classify ps)
           = Some (runBy (\<lambda>a b. joinRule 0 a b = \<Omega>) (fst p) (map fst ps))"
proof (rule joinedRun_runBy [where R = joinRule])
  show "ucdGraphemeJoins (of_nat s) (ucast (trieValue a wa)) (ucast (trieValue b wb))
          = Some (joinRule s a b)" if "s < 2" for s a b wa wb
    using that by (rule ucdGraphemeJoins_trieValue)
  show "joinRule (Suc 0) a b = joinRule 0 a b" if "(a, b) \<noteq> (cbRI, cbRI)" for a b
    using joinRule_tables_agree [OF that] by simp
  show "joinRule 0 a b = 0" if "joinRule 0 a b \<noteq> \<Omega>" "(a, b) \<noteq> (cbRI, cbRI)" for a b
    using that by (rule joinRule_default_join)
  show "joinRule 0 cbRI cbRI = 1" by (rule joinRule_RI_RI)
  show "noThreeRI (fst p # map fst ps)" by (rule assms)
  show "(0 :: 8 word) = 0 \<or> ((0 :: 8 word) = 1 \<and> (ps = [] \<or> fst (hd ps) \<noteq> cbRI))" by simp
qed

lemma backward_run:
  assumes "noThreeRI (fst p # map fst ps)"
  shows "joinedRun (\<lambda>state later earlier. ucdGraphemeJoins state earlier later) 0
            (ucast (trieValue (fst p) (snd p))) (classify ps)
           = Some (runBy (\<lambda>a b. joinRule 0 b a = \<Omega>) (fst p) (map fst ps))"
proof (rule joinedRun_runBy [where R = "\<lambda>s a b. joinRule s b a"])
  show "ucdGraphemeJoins (of_nat s) (ucast (trieValue b wb)) (ucast (trieValue a wa))
          = Some (joinRule s b a)" if "s < 2" for s a b wa wb
    using that by (rule ucdGraphemeJoins_trieValue)
  show "joinRule (Suc 0) b a = joinRule 0 b a" if "(a, b) \<noteq> (cbRI, cbRI)" for a b
    using joinRule_tables_agree [of b a] that by auto
  show "joinRule 0 b a = 0" if "joinRule 0 b a \<noteq> \<Omega>" "(a, b) \<noteq> (cbRI, cbRI)" for a b
    using joinRule_default_join [of b a] that by auto
  show "joinRule 0 cbRI cbRI = 1" by (rule joinRule_RI_RI)
  show "noThreeRI (fst p # map fst ps)" by (rule assms)
  show "(0 :: 8 word) = 0 \<or> ((0 :: 8 word) = 1 \<and> (ps = [] \<or> fst (hd ps) \<noteq> cbRI))" by simp
qed

lemma runBy_props:
  "runBy brk c ds \<le> length ds
   \<and> (\<forall>j < runBy brk c ds. \<not> brk ((c # ds) ! j) (ds ! j))
   \<and> (runBy brk c ds < length ds \<longrightarrow> brk ((c # ds) ! runBy brk c ds) (ds ! runBy brk c ds))"
proof (induction ds arbitrary: c)
  case Nil
  then show ?case by simp
next
  case (Cons d ds)
  show ?case
  proof (cases "brk c d")
    case True
    then show ?thesis by simp
  next
    case False
    then show ?thesis
      using Cons.IH [of d] by (auto simp add: less_Suc_eq_0_disj)
  qed
qed

lemma GraphemeNext_step:
  assumes no3: "noThreeRI (map fst cps)" and beg: "beg < length cps"
  shows "\<exists>e w. GraphemeNext (classify cps) beg = Some (e, w) \<and> beg < e \<and> e \<le> length cps
           \<and> (\<forall>i. beg < i \<and> i < e \<longrightarrow> \<not> breakAt (map fst cps) i)
           \<and> (e < length cps \<longrightarrow> breakAt (map fst cps) e)"
proof -
  let ?cats = "map fst cps"
  obtain p ps where d: "drop beg cps = p # ps"
    using beg by (cases "drop beg cps") auto
  have dc: "drop beg ?cats = fst p # map fst ps"
    unfolding drop_map d by simp
  have len: "length ps = length cps - beg - 1"
    using arg_cong [OF d, of length] by simp
  have "sublist (drop beg ?cats) ?cats" by simp
  then have "noThreeRI (fst p # map fst ps)"
    using noThreeRI_sublist [OF no3] dc by simp
  note run = forward_run [OF this]
  let ?k = "runBy (\<lambda>a b. joinRule 0 a b = \<Omega>) (fst p) (map fst ps)"
  have nxt: "GraphemeNext (classify cps) beg
      = Some (beg + 1 + ?k, clusterWidth (take (Suc ?k) (drop beg (classify cps))))"
    using d run by (simp add: GraphemeNext_def classify_def drop_map case_prod_unfold)
  note props = runBy_props [of "\<lambda>a b. joinRule 0 a b = \<Omega>" "fst p" "map fst ps"]
  have k: "?k \<le> length cps - beg - 1" using props len by simp
  have nth1: "(fst p # map fst ps) ! j = ?cats ! (beg + j)" for j
    using dc beg by (metis length_map less_imp_le_nat nth_drop)
  have nth2: "map fst ps ! j = ?cats ! (beg + Suc j)" for j
    using nth1 [of "Suc j"] by simp
  have inner: "\<not> breakAt ?cats i" if "beg < i" "i < beg + 1 + ?k" for i
  proof -
    have "i - beg - 1 < ?k" using that by linarith
    then have "\<not> joinRule 0 ((fst p # map fst ps) ! (i - beg - 1)) (map fst ps ! (i - beg - 1)) = \<Omega>"
      using props by blast
    moreover have "beg + (i - beg - 1) = i - 1" "beg + Suc (i - beg - 1) = i"
      using that by linarith+
    ultimately show ?thesis
      by (simp add: breakAt_def nth1 nth2)
  qed
  have last: "breakAt ?cats (beg + 1 + ?k)" if "beg + 1 + ?k < length cps"
  proof -
    have "?k < length (map fst ps)" using that len by simp
    then have "joinRule 0 ((fst p # map fst ps) ! ?k) (map fst ps ! ?k) = \<Omega>"
      using props by blast
    then show ?thesis
      by (simp add: breakAt_def nth1 nth2)
  qed
  show ?thesis
    using nxt k beg inner last by (intro exI [of _ "beg + 1 + ?k"]) auto
qed

lemma GraphemePrev_step:
  assumes no3: "noThreeRI (map fst cps)" and fin: "0 < fin" "fin \<le> length cps"
  shows "\<exists>b w. GraphemePrev (classify cps) fin = Some (b, w) \<and> b < fin
           \<and> (\<forall>i. b < i \<and> i < fin \<longrightarrow> \<not> breakAt (map fst cps) i)
           \<and> (0 < b \<longrightarrow> breakAt (map fst cps) b)"
proof -
  let ?cats = "map fst cps"
  obtain p ps where d: "rev (take fin cps) = p # ps"
    using fin by (cases "rev (take fin cps)") auto
  have "map fst (rev (take fin cps)) = fst p # map fst ps"
    by (simp only: d list.map)
  then have dc: "rev (take fin ?cats) = fst p # map fst ps"
    by (simp only: take_map rev_map)
  have len: "length ps = fin - 1"
    using arg_cong [OF d, of length] fin by simp
  have "sublist (take fin ?cats) ?cats" by simp
  then have "noThreeRI (take fin ?cats)"
    using noThreeRI_sublist [OF no3] by simp
  then have "noThreeRI (fst p # map fst ps)"
    using noThreeRI_rev [of "take fin ?cats"] dc by simp
  note run = backward_run [OF this]
  let ?k = "runBy (\<lambda>a b. joinRule 0 b a = \<Omega>) (fst p) (map fst ps)"
  have prev: "GraphemePrev (classify cps) fin
      = Some (fin - 1 - ?k, clusterWidth (take (Suc ?k) (rev (take fin (classify cps)))))"
    using d run fin len
    by (simp add: GraphemePrev_def classify_def take_map rev_map case_prod_unfold)
  note props = runBy_props [of "\<lambda>a b. joinRule 0 b a = \<Omega>" "fst p" "map fst ps"]
  have k: "?k \<le> fin - 1" using props len by simp
  have nth1: "(fst p # map fst ps) ! j = ?cats ! (fin - 1 - j)" if "j < fin" for j
  proof -
    have "rev (take fin ?cats) ! j = take fin ?cats ! (length (take fin ?cats) - Suc j)"
      using that fin by (intro rev_nth) simp
    then show ?thesis using dc that fin by simp
  qed
  have nth2: "map fst ps ! j = ?cats ! (fin - 2 - j)" if "Suc j < fin" for j
    using nth1 [of "Suc j"] that by (simp add: numeral_2_eq_2)
  have at: "joinRule 0 (map fst ps ! j) ((fst p # map fst ps) ! j) = \<Omega>
      \<longleftrightarrow> breakAt ?cats (fin - 1 - j)" if "Suc j < fin" for j
  proof -
    have "fin - 1 - j - 1 = fin - 2 - j" by simp
    then show ?thesis
      using that by (simp add: breakAt_def nth1 nth2)
  qed
  have inner: "\<not> breakAt ?cats i" if "fin - 1 - ?k < i" "i < fin" for i
  proof -
    have j: "fin - 1 - i < ?k" using that by linarith
    then have "\<not> joinRule 0 (map fst ps ! (fin - 1 - i)) ((fst p # map fst ps) ! (fin - 1 - i)) = \<Omega>"
      using props by blast
    moreover have "Suc (fin - 1 - i) < fin" using j k by linarith
    moreover have "fin - 1 - (fin - 1 - i) = i" using that by linarith
    ultimately show ?thesis using at [of "fin - 1 - i"] by simp
  qed
  have first: "breakAt ?cats (fin - 1 - ?k)" if "0 < fin - 1 - ?k"
  proof -
    have "?k < length (map fst ps)" using that len by simp
    then have "joinRule 0 (map fst ps ! ?k) ((fst p # map fst ps) ! ?k) = \<Omega>"
      using props by blast
    moreover have "Suc ?k < fin" using that by linarith
    ultimately show ?thesis using at [of ?k] by simp
  qed
  show ?thesis
    using prev fin inner first by (intro exI [of _ "fin - 1 - ?k"]) auto
qed

lemma scanForward_boundaries:
  assumes no3: "noThreeRI (map fst cps)"
  shows "beg \<le> length cps \<Longrightarrow> length cps - beg \<le> fuel \<Longrightarrow>
     \<exists>steps. scanForward fuel (classify cps) beg = Some steps
        \<and> sorted_wrt (<) (map fst steps)
        \<and> set (map fst steps)
            = {i. beg < i \<and> i \<le> length cps \<and> (i = length cps \<or> breakAt (map fst cps) i)}"
proof (induction fuel arbitrary: beg)
  case 0
  then have "beg = length cps" by simp
  then show ?case
    by (subst scanForward.simps) (auto simp add: length_classify)
next
  case (Suc fuel)
  show ?case
  proof (cases "beg < length cps")
    case False
    then have "beg = length cps" using Suc.prems by simp
    then show ?thesis
      by (subst scanForward.simps) (auto simp add: length_classify)
  next
    case True
    obtain e w where step: "GraphemeNext (classify cps) beg = Some (e, w)"
        "beg < e" "e \<le> length cps"
        "\<forall>i. beg < i \<and> i < e \<longrightarrow> \<not> breakAt (map fst cps) i"
        "e < length cps \<longrightarrow> breakAt (map fst cps) e"
      using GraphemeNext_step [OF no3 True] by blast
    have "length cps - e \<le> fuel" using step(2) Suc.prems by linarith
    then obtain steps where rest: "scanForward fuel (classify cps) e = Some steps"
        "sorted_wrt (<) (map fst steps)"
        "set (map fst steps)
            = {i. e < i \<and> i \<le> length cps \<and> (i = length cps \<or> breakAt (map fst cps) i)}"
      using Suc.IH [OF step(3)] by blast
    have run: "scanForward (Suc fuel) (classify cps) beg = Some ((e, w) # steps)"
      using True step(1) rest(1)
      by (subst scanForward.simps) (simp add: length_classify)
    have sorted: "sorted_wrt (<) (map fst ((e, w) # steps))"
      using rest(2,3) by auto
    have "set (map fst ((e, w) # steps))
        = {i. beg < i \<and> i \<le> length cps \<and> (i = length cps \<or> breakAt (map fst cps) i)}"
    proof (intro equalityI subsetI)
      fix i assume "i \<in> set (map fst ((e, w) # steps))"
      then have "i = e \<or> i \<in> set (map fst steps)" by auto
      then show "i \<in> {i. beg < i \<and> i \<le> length cps
          \<and> (i = length cps \<or> breakAt (map fst cps) i)}"
        using step(2,3,5) rest(3) by auto
    next
      fix i assume "i \<in> {i. beg < i \<and> i \<le> length cps
          \<and> (i = length cps \<or> breakAt (map fst cps) i)}"
      then have i: "beg < i" "i \<le> length cps" "i = length cps \<or> breakAt (map fst cps) i"
        by auto
      have "\<not> i < e" using i step(3,4) by auto
      then have "i = e \<or> e < i" by linarith
      then show "i \<in> set (map fst ((e, w) # steps))"
        using i rest(3) by auto
    qed
    then show ?thesis using run sorted by blast
  qed
qed

lemma scanBackward_boundaries:
  assumes no3: "noThreeRI (map fst cps)"
  shows "fin \<le> length cps \<Longrightarrow> fin \<le> fuel \<Longrightarrow>
     \<exists>steps. scanBackward fuel (classify cps) fin = Some steps
        \<and> sorted_wrt (>) (map fst steps)
        \<and> set (map fst steps) = {i. i < fin \<and> (i = 0 \<or> breakAt (map fst cps) i)}"
proof (induction fuel arbitrary: fin)
  case 0
  then show ?case
    by (subst scanBackward.simps) auto
next
  case (Suc fuel)
  show ?case
  proof (cases "0 < fin")
    case False
    then show ?thesis
      by (subst scanBackward.simps) auto
  next
    case True
    obtain b w where step: "GraphemePrev (classify cps) fin = Some (b, w)" "b < fin"
        "\<forall>i. b < i \<and> i < fin \<longrightarrow> \<not> breakAt (map fst cps) i"
        "0 < b \<longrightarrow> breakAt (map fst cps) b"
      using GraphemePrev_step [OF no3 True Suc.prems(1)] by blast
    have "b \<le> length cps" "b \<le> fuel" using step(2) Suc.prems by linarith+
    then obtain steps where rest: "scanBackward fuel (classify cps) b = Some steps"
        "sorted_wrt (>) (map fst steps)"
        "set (map fst steps) = {i. i < b \<and> (i = 0 \<or> breakAt (map fst cps) i)}"
      using Suc.IH by blast
    have run: "scanBackward (Suc fuel) (classify cps) fin = Some ((b, w) # steps)"
      using True step(1) rest(1)
      by (subst scanBackward.simps) simp
    have sorted: "sorted_wrt (>) (map fst ((b, w) # steps))"
      using rest(2,3) by auto
    have "set (map fst ((b, w) # steps)) = {i. i < fin \<and> (i = 0 \<or> breakAt (map fst cps) i)}"
    proof (intro equalityI subsetI)
      fix i assume "i \<in> set (map fst ((b, w) # steps))"
      then have "i = b \<or> i \<in> set (map fst steps)" by auto
      then show "i \<in> {i. i < fin \<and> (i = 0 \<or> breakAt (map fst cps) i)}"
        using step(2,4) rest(3) by auto
    next
      fix i assume "i \<in> {i. i < fin \<and> (i = 0 \<or> breakAt (map fst cps) i)}"
      then have i: "i < fin" "i = 0 \<or> breakAt (map fst cps) i" by auto
      have "\<not> b < i" using i step(3) by auto
      then have "i = b \<or> i < b" by linarith
      then show "i \<in> set (map fst ((b, w) # steps))"
        using i rest(3) by auto
    qed
    then show ?thesis using run sorted by blast
  qed
qed

text \<open>
  C2, as the code has it. For every text in which no three RegionalIndicator code points
  are consecutive, both scans return, and the boundary offsets of the forward scan (0 and
  the end of every cluster, in ascending order) are the same list as the boundary offsets of
  the backward scan (the beginning of every cluster and the length of the text, reversed
  into ascending order): each list is the strictly ascending enumeration of 0, the length of
  the text and the offsets at which the base table breaks the adjacent pair.
\<close>

theorem scans_agree_without_three_RI:
  assumes "noThreeRI (map fst cps)"
  shows "\<exists>boundaries. forwardBoundaries (classify cps) = Some boundaries
           \<and> backwardBoundaries (classify cps) = Some boundaries"
proof -
  let ?n = "length cps"
  let ?brk = "breakAt (map fst cps)"
  obtain fs where f: "scanForward ?n (classify cps) 0 = Some fs"
      "sorted_wrt (<) (map fst fs)"
      "set (map fst fs) = {i. 0 < i \<and> i \<le> ?n \<and> (i = ?n \<or> ?brk i)}"
    using scanForward_boundaries [OF assms, of 0 ?n] by auto
  obtain bs where b: "scanBackward ?n (classify cps) ?n = Some bs"
      "sorted_wrt (>) (map fst bs)"
      "set (map fst bs) = {i. i < ?n \<and> (i = 0 \<or> ?brk i)}"
    using scanBackward_boundaries [OF assms, of ?n ?n] by auto
  let ?F = "0 # map fst fs"
  let ?B = "rev (map fst bs) @ [?n]"
  have fwd: "forwardBoundaries (classify cps) = Some ?F"
    using f(1) by (simp add: forwardBoundaries_def length_classify)
  have bwd: "backwardBoundaries (classify cps) = Some ?B"
    using b(1) by (simp add: backwardBoundaries_def length_classify)
  have sF: "sorted_wrt (<) ?F" using f(2,3) by auto
  have "sorted_wrt (<) (rev (map fst bs))"
    using b(2) by (simp add: sorted_wrt_rev)
  then have sB: "sorted_wrt (<) ?B"
    using b(3) by (auto simp add: sorted_wrt_append)
  have "set ?F = set ?B"
    using f(3) b(3) by auto
  moreover have "sorted ?F" "distinct ?F" "sorted ?B" "distinct ?B"
    using sF sB unfolding strict_sorted_iff by blast+
  ultimately have "?F = ?B"
    by (intro sorted_distinct_set_unique)
  then show ?thesis using fwd bwd by simp
qed

theorem scans_agree_without_three_RI_witness:
  "noThreeRI (map fst [(cbOther, cwNarrow), (cbExtend, cwZeroWidth), (cbOther, cwNarrow),
       (cbExtend, cwZeroWidth), (cbExtend, cwZeroWidth), (cbRI, cwNarrow), (cbRI, cwNarrow)])
   \<and> forwardBoundaries (classify [(cbOther, cwNarrow), (cbExtend, cwZeroWidth),
       (cbOther, cwNarrow), (cbExtend, cwZeroWidth), (cbExtend, cwZeroWidth),
       (cbRI, cwNarrow), (cbRI, cwNarrow)]) = Some [0, 2, 5, 7]
   \<and> backwardBoundaries (classify [(cbOther, cwNarrow), (cbExtend, cwZeroWidth),
       (cbOther, cwNarrow), (cbExtend, cwZeroWidth), (cbExtend, cwZeroWidth),
       (cbRI, cwNarrow), (cbRI, cwNarrow)]) = Some [0, 2, 5, 7]"
proof -
  let ?text = "[(cbOther, cwNarrow), (cbExtend, cwZeroWidth), (cbOther, cwNarrow),
       (cbExtend, cwZeroWidth), (cbExtend, cwZeroWidth), (cbRI, cwNarrow), (cbRI, cwNarrow)]"
  have no3: "noThreeRI (map fst ?text)"
    by (simp add: noThreeRI_def sublist_Cons_right)
  have fwd: "forwardBoundaries (classify ?text) = Some [0, 2, 5, 7]"
    by (simp add: forwardBoundaries_def scanForward.simps GraphemeNext_def classify_def
        clusterWidth_def ucdToCharacterWidth_def join_eval)
  from scans_agree_without_three_RI [OF no3] fwd
  have "backwardBoundaries (classify ?text) = Some [0, 2, 5, 7]"
    by auto
  with no3 fwd show ?thesis by simp
qed


text \<open>
  C2, as the spec states it, fails on three consecutive RegionalIndicator code points: the
  forward scan joins the first two and leaves the third alone (boundaries 0, 2, 3), the
  backward scan joins the last two and leaves the first alone (boundaries 0, 1, 3). This is
  the asymmetry that the comment above \<^verbatim>\<open>JoinRules\<close> describes.
\<close>

theorem three_RI_scans_disagree:
  "forwardBoundaries (classify [(cbRI, cwNarrow), (cbRI, cwNarrow), (cbRI, cwNarrow)])
     = Some [0, 2, 3]
   \<and> backwardBoundaries (classify [(cbRI, cwNarrow), (cbRI, cwNarrow), (cbRI, cwNarrow)])
     = Some [0, 1, 3]"
  by (simp add: forwardBoundaries_def backwardBoundaries_def scanForward.simps
      scanBackward.simps GraphemeNext_def GraphemePrev_def classify_def clusterWidth_def
      ucdToCharacterWidth_def join_eval)

section \<open>Classification extraction\<close>

lemma gcbCategory_None_iff:
  "gcbCategory s = None \<longleftrightarrow>
     s \<notin> set [''XX'', ''CR'', ''LF'', ''CN'', ''EX'', ''SM'', ''PP'', ''ZWJ'', ''RI'',
               ''L'', ''V'', ''T'', ''LV'', ''LVT'']"
  by (simp add: gcbCategory_def)

lemma eaWidth_None_iff:
  "eaWidth s = None \<longleftrightarrow> s \<notin> set [''N'', ''Na'', ''H'', ''F'', ''W'', ''A'']"
  by (simp add: eaWidth_def)

lemma charValue_Inl_iff: "(\<exists>e. charValue g c = Inl e) \<longleftrightarrow> offendingRecord g c"
proof (cases "gcbCategory (coalesce (GraphemeClusterBreak c) (GraphemeClusterBreak g))")
  case None
  then show ?thesis
    using gcbCategory_None_iff [of "coalesce (GraphemeClusterBreak c) (GraphemeClusterBreak g)"]
    by (simp add: charValue_def offendingRecord_def Let_def)
next
  case (Some cb)
  note gcb = Some
  show ?thesis
  proof (cases "eaWidth (coalesce (EastAsian c) (EastAsian g))")
    case None
    then show ?thesis
      using gcb eaWidth_None_iff [of "coalesce (EastAsian c) (EastAsian g)"]
      by (simp add: charValue_def offendingRecord_def Let_def)
  next
    case (Some w)
    then show ?thesis
      using gcb eaWidth_None_iff [of "coalesce (EastAsian c) (EastAsian g)"]
        gcbCategory_None_iff [of "coalesce (GraphemeClusterBreak c) (GraphemeClusterBreak g)"]
      by (auto simp add: charValue_def offendingRecord_def currentCategory_def Let_def)
  qed
qed

lemma charValue_error:
  assumes "charValue g c = Inl e"
  shows "e \<noteq> Panic \<and> errorRange e = Some (charRange c)"
  using assms
  by (auto simp add: charValue_def Let_def split: option.splits if_splits)

lemma charValue_zero_width:
  assumes "charValue g c = Inr v"
    and "prefix ''M'' (coalesce (GeneralCategory c) (GeneralCategory g))
         \<or> coalesce (GeneralCategory c) (GeneralCategory g) = ''Cf''"
  shows "\<exists>cb. v = trieValue cb cwZeroWidth"
  using assms
  by (auto simp add: charValue_def Let_def split: option.splits if_splits)

lemma trieValue_width: "ucdToCharacterWidth (ucast (trieValue cb w)) = int (cwValue w)"
  by (cases cb; cases w; simp add: trieValue_def ucdToCharacterWidth_def)

lemma fillSlice_in_range:
  assumes "0 \<le> low" "low \<le> high" "high \<le> int (length values)"
  shows "\<exists>values'. fillSlice values low high v = Inr values' \<and> length values' = length values
           \<and> (\<forall>i. low \<le> i \<and> i < high \<longrightarrow> values' ! nat i = v)"
proof -
  let ?r = "take (nat low) values
             @ fillRange (take (nat high - nat low) (drop (nat low) values)) v
             @ drop (nat high) values"
  have eq: "fillSlice values low high v = Inr ?r"
    using assms by (simp add: fillSlice_def)
  have len: "length ?r = length values"
    using assms by (simp add: fillRange_def)
  have "?r ! nat i = v" if "low \<le> i" "i < high" for i
  proof -
    have a: "nat low \<le> nat i" "nat i - nat low < nat high - nat low" "nat low \<le> length values"
      using that assms by linarith+
    have "nat high - nat low \<le> length values - nat low"
      using assms by linarith
    then show ?thesis
      using a that by (simp add: nth_append fillRange_def min_def)
  qed
  then show ?thesis using eq len by blast
qed

lemma extractChars_result:
  assumes "\<forall>c \<in> set cs. rangeInArray c" "length values = 1114112"
  shows "case extractChars g cs values of
           Inl e \<Rightarrow> e \<noteq> Panic \<and> (\<exists>c \<in> set cs. offendingRecord g c \<and> charValue g c = Inl e
                      \<and> errorRange e = Some (charRange c))
         | Inr values' \<Rightarrow> length values' = 1114112 \<and> (\<forall>c \<in> set cs. \<not> offendingRecord g c)"
  using assms
proof (induction cs arbitrary: "values")
  case Nil
  then show ?case by simp
next
  case (Cons c cs)
  show ?case
  proof (cases "charValue g c")
    case (Inl e)
    then show ?thesis
      using charValue_error [OF Inl] charValue_Inl_iff [of g c] by auto
  next
    case (Inr v)
    then have ok: "\<not> offendingRecord g c"
      using charValue_Inl_iff [of g c] by auto
    have "rangeInArray c" using Cons.prems by simp
    then obtain values' where
      fill: "fillSlice values (fst (charRange c)) (snd (charRange c) + 1) v = Inr values'"
      and len: "length values' = length values"
      using fillSlice_in_range [of "fst (charRange c)" "snd (charRange c) + 1" "values" v] Cons.prems
      by (auto simp add: rangeInArray_def)
    have ih: "case extractChars g cs values' of
           Inl e \<Rightarrow> e \<noteq> Panic \<and> (\<exists>c \<in> set cs. offendingRecord g c \<and> charValue g c = Inl e
                      \<and> errorRange e = Some (charRange c))
         | Inr values'' \<Rightarrow> length values'' = 1114112 \<and> (\<forall>c \<in> set cs. \<not> offendingRecord g c)"
      using Cons.IH [of values'] Cons.prems len by simp
    show ?thesis
      using Inr fill ih ok by (auto split: sum.splits)
  qed
qed

lemma extractGroups_result:
  assumes "\<forall>g \<in> set gs. \<forall>c \<in> set (Chars g). rangeInArray c" "length values = 1114112"
  shows "case extractGroups gs values of
           Inl e \<Rightarrow> e \<noteq> Panic \<and> (\<exists>g \<in> set gs. \<exists>c \<in> set (Chars g). offendingRecord g c
                      \<and> charValue g c = Inl e \<and> errorRange e = Some (charRange c))
         | Inr values' \<Rightarrow> length values' = 1114112
                      \<and> (\<forall>g \<in> set gs. \<forall>c \<in> set (Chars g). \<not> offendingRecord g c)"
  using assms
proof (induction gs arbitrary: "values")
  case Nil
  then show ?case by simp
next
  case (Cons g gs)
  have inner: "case extractChars g (Chars g) values of
           Inl e \<Rightarrow> e \<noteq> Panic \<and> (\<exists>c \<in> set (Chars g). offendingRecord g c \<and> charValue g c = Inl e
                      \<and> errorRange e = Some (charRange c))
         | Inr values' \<Rightarrow> length values' = 1114112 \<and> (\<forall>c \<in> set (Chars g). \<not> offendingRecord g c)"
    using extractChars_result [of "Chars g" "values" g] Cons.prems by simp
  show ?case
  proof (cases "extractChars g (Chars g) values")
    case (Inl e)
    then show ?thesis using inner by auto
  next
    case (Inr values')
    then have "length values' = 1114112" and ok: "\<forall>c \<in> set (Chars g). \<not> offendingRecord g c"
      using inner by auto
    then have ih: "case extractGroups gs values' of
           Inl e \<Rightarrow> e \<noteq> Panic \<and> (\<exists>g \<in> set gs. \<exists>c \<in> set (Chars g). offendingRecord g c
                      \<and> charValue g c = Inl e \<and> errorRange e = Some (charRange c))
         | Inr values'' \<Rightarrow> length values'' = 1114112
                      \<and> (\<forall>g \<in> set gs. \<forall>c \<in> set (Chars g). \<not> offendingRecord g c)"
      using Cons.IH [of values'] Cons.prems by simp
    show ?thesis
      using Inr ih ok by (auto split: sum.splits)
  qed
qed

lemma set_records:
  "set (records ucd) = {(g, c). g \<in> set (Repertoire_Group ucd) \<and> c \<in> set (Chars g)}"
  by (auto simp add: records_def)

lemma extract_result:
  assumes "\<forall>(g, c) \<in> set (records ucd). rangeInArray c"
  shows "case extractValuesFromUCD ucd of
           Inl e \<Rightarrow> e \<noteq> Panic \<and> (\<exists>(g, c) \<in> set (records ucd). offendingRecord g c
                      \<and> charValue g c = Inl e \<and> errorRange e = Some (charRange c))
         | Inr values' \<Rightarrow> length values' = 1114112
                      \<and> (\<forall>(g, c) \<in> set (records ucd). \<not> offendingRecord g c)"
proof -
  let ?init = "fillRange (replicate 1114112 0) (trieValue cbOther cwNarrow)"
  have len0: "length ?init = 1114112" by (simp add: fillRange_def)
  have rng: "\<forall>g \<in> set (Repertoire_Group ucd). \<forall>c \<in> set (Chars g). rangeInArray c"
    using assms by (auto simp add: set_records)
  note main = extractGroups_result [OF rng len0]
  show ?thesis
  proof (cases "extractGroups (Repertoire_Group ucd) ?init")
    case (Inl e)
    then show ?thesis
      using main by (auto simp add: extractValuesFromUCD_def set_records)
  next
    case (Inr values1)
    then have l1: "length values1 = 1114112"
      and ok: "\<forall>g \<in> set (Repertoire_Group ucd). \<forall>c \<in> set (Chars g). \<not> offendingRecord g c"
      using main by auto
    obtain values2 where f2: "fillSlice values1 0x2500 (0x259F + 1) (trieValue cbOther cwNarrow) = Inr values2"
      and l2: "length values2 = length values1"
      using fillSlice_in_range [of "0x2500" "0x259F + 1" values1] l1 by auto
    obtain values3 where f3: "fillSlice values2 0xFE0F (0xFE0F + 1) (trieValue cbExtend cwWide) = Inr values3"
      and l3: "length values3 = length values2"
      using fillSlice_in_range [of "0xFE0F" "0xFE0F + 1" values2] l1 l2 by auto
    show ?thesis
      using Inr f2 f3 l1 l2 l3 ok by (auto simp add: extractValuesFromUCD_def set_records)
  qed
qed

lemmas extract_eval =
  records_def ucdOf_def combiningGroup_def charAt_def rangeZZ_def offendingRecord_def
  coalesce_def currentCategory_def gcbCategory_def extractValuesFromUCD_def charValue_def
  eaWidth_def charRange_def fillSlice_def fillRange_def rangeInArray_def

text \<open>
  C4, as the code has it. When the slice \<^verbatim>\<open>values[firstCp:lastCp+1]\<close> of every record
  lies inside the array (\<open>0 \<le> firstCp \<le> lastCp + 1 \<le> 1114112\<close>),
  \<^verbatim>\<open>extractValuesFromUCD\<close> returns an error if and only if some record is an offending
  record in the sense of the specification. The error is never a panic, it is the error
  of an offending record, and it names that record's code-point range. When no record
  offends, the result is the dense array of 1114112 values.
\<close>

theorem extractValuesFromUCD_error_iff:
  assumes "\<forall>(g, c) \<in> set (records ucd). rangeInArray c"
  shows "((\<exists>e. extractValuesFromUCD ucd = Inl e)
            \<longleftrightarrow> (\<exists>(g, c) \<in> set (records ucd). offendingRecord g c))
    \<and> (\<forall>e. extractValuesFromUCD ucd = Inl e \<longrightarrow>
          e \<noteq> Panic \<and> (\<exists>(g, c) \<in> set (records ucd). offendingRecord g c
             \<and> charValue g c = Inl e \<and> errorRange e = Some (charRange c)))
    \<and> ((\<forall>(g, c) \<in> set (records ucd). \<not> offendingRecord g c) \<longrightarrow>
          (\<exists>values. extractValuesFromUCD ucd = Inr values \<and> length values = 1114112))"
proof (cases "extractValuesFromUCD ucd")
  case (Inl e)
  then show ?thesis
    using extract_result [OF assms] by (simp split: prod.splits) blast
next
  case (Inr values')
  then show ?thesis
    using extract_result [OF assms] by (simp split: prod.splits)
qed

theorem extractValuesFromUCD_error_iff_witness:
  "list_all (\<lambda>(g, c). rangeInArray c) (records (ucdOf [charAt 0x300, rangeZZ]))
   \<and> extractValuesFromUCD (ucdOf [charAt 0x300, rangeZZ]) = Inl (UnrecognizedGCB ''ZZ'' 5 7)
   \<and> (\<exists>(g, c) \<in> set (records (ucdOf [charAt 0x300, rangeZZ])). offendingRecord g c)
   \<and> list_all (\<lambda>(g, c). rangeInArray c) (records (ucdOf [charAt 0x300]))
   \<and> list_all (\<lambda>(g, c). \<not> offendingRecord g c) (records (ucdOf [charAt 0x300]))
   \<and> (\<exists>values. extractValuesFromUCD (ucdOf [charAt 0x300]) = Inr values
         \<and> length values = 1114112)"
proof -
  have r1: "\<forall>(g, c) \<in> set (records (ucdOf [charAt 0x300, rangeZZ])). rangeInArray c"
    by (simp add: extract_eval)
  have e1: "extractValuesFromUCD (ucdOf [charAt 0x300, rangeZZ]) = Inl (UnrecognizedGCB ''ZZ'' 5 7)"
    by (simp add: extract_eval)
  have r2: "\<forall>(g, c) \<in> set (records (ucdOf [charAt 0x300])). rangeInArray c"
    by (simp add: extract_eval)
  have o2: "\<forall>(g, c) \<in> set (records (ucdOf [charAt 0x300])). \<not> offendingRecord g c"
    by (simp add: extract_eval)
  have "\<exists>(g, c) \<in> set (records (ucdOf [charAt 0x300, rangeZZ])). offendingRecord g c"
    using extractValuesFromUCD_error_iff [OF r1] e1 by blast
  moreover have "\<exists>values. extractValuesFromUCD (ucdOf [charAt 0x300]) = Inr values
         \<and> length values = 1114112"
    using extractValuesFromUCD_error_iff [OF r2] o2 by blast
  ultimately show ?thesis
    using r1 e1 r2 o2 unfolding list_all_iff by blast
qed

text \<open>
  The claim as stated, without the condition on the ranges, fails: the entry for the code
  point 0x110000 has recognized attributes and is not an offending record, but the slice
  \<^verbatim>\<open>values[0x110000:0x110001]\<close> is outside the array and the program panics; it neither
  returns an error nor the array.
\<close>

theorem extractValuesFromUCD_panics_out_of_range:
  "records (ucdOf [charAt 0x110000])
     = [(combiningGroup\<lparr>Chars := [charAt 0x110000]\<rparr>, charAt 0x110000)]
   \<and> \<not> offendingRecord (combiningGroup\<lparr>Chars := [charAt 0x110000]\<rparr>) (charAt 0x110000)
   \<and> extractValuesFromUCD (ucdOf [charAt 0x110000]) = Inl Panic"
  by (simp add: extract_eval)

text \<open>
  C6. When a record is processed without error and its coalesced General_Category starts
  with M or is Cf, the value written to every code point of its range is the record's
  classification value and has the width ZeroWidth, whatever the East_Asian_Width.
\<close>

theorem zero_width_override:
  assumes "extractChars g [c] values = Inr values'"
    and "prefix ''M'' (coalesce (GeneralCategory c) (GeneralCategory g))
         \<or> coalesce (GeneralCategory c) (GeneralCategory g) = ''Cf''"
    and "fst (charRange c) \<le> cp" and "cp \<le> snd (charRange c)"
  shows "charValue g c = Inr (values' ! nat cp)
    \<and> ucdToCharacterWidth (ucast (values' ! nat cp)) = int (cwValue cwZeroWidth)"
proof -
  obtain v where v: "charValue g c = Inr v"
    and fill: "fillSlice values (fst (charRange c)) (snd (charRange c) + 1) v = Inr values'"
    using assms(1) by (auto split: sum.splits)
  have rng: "0 \<le> fst (charRange c)" "fst (charRange c) \<le> snd (charRange c) + 1"
      "snd (charRange c) + 1 \<le> int (length values)"
    using fill by (auto simp add: fillSlice_def split: if_splits)
  have "values' ! nat cp = v"
    using fillSlice_in_range [OF rng, of v] fill assms(3,4) by auto
  moreover obtain cb where "v = trieValue cb cwZeroWidth"
    using charValue_zero_width [OF v assms(2)] by blast
  ultimately show ?thesis
    using v by (simp add: trieValue_width)
qed

theorem zero_width_override_witness:
  "extractChars combiningGroup [charAt 0x300] (replicate 1000 0)
     = Inr (replicate 768 0 @ [2] @ replicate 231 0)
   \<and> coalesce (EastAsian (charAt 0x300)) (EastAsian combiningGroup) = ''W''
   \<and> prefix ''M'' (coalesce (GeneralCategory (charAt 0x300)) (GeneralCategory combiningGroup))
   \<and> fst (charRange (charAt 0x300)) \<le> 0x300 \<and> 0x300 \<le> snd (charRange (charAt 0x300))
   \<and> charValue combiningGroup (charAt 0x300) = Inr ((replicate 768 0 @ [2] @ replicate 231 0) ! nat 0x300)
   \<and> ucdToCharacterWidth (ucast ((replicate 768 0 @ [2] @ replicate 231 0 :: TrieType list) ! nat 0x300))
       = int (cwValue cwZeroWidth)"
proof -
  have a: "extractChars combiningGroup [charAt 0x300] (replicate 1000 0)
     = Inr (replicate 768 0 @ [2] @ replicate 231 0)"
    by (simp add: extract_eval trieValue_def)
  have b: "prefix ''M'' (coalesce (GeneralCategory (charAt 0x300)) (GeneralCategory combiningGroup))"
    by (simp add: extract_eval)
  have c: "fst (charRange (charAt 0x300)) \<le> 0x300" "0x300 \<le> snd (charRange (charAt 0x300))"
    by (simp_all add: extract_eval)
  have d: "coalesce (EastAsian (charAt 0x300)) (EastAsian combiningGroup) = ''W''"
    by (simp add: extract_eval)
  show ?thesis
    using zero_width_override [OF a disjI1 [OF b] c] a b c d by blast
qed

section \<open>Searching the compressed output\<close>

lemma bytesIndex_prefix: "prefix sep s \<Longrightarrow> bytesIndex s sep = 0"
  by (cases s) simp_all

lemma bytesIndex_found:
  "bytesIndex s sep \<noteq> - 1 \<Longrightarrow>
     0 \<le> bytesIndex s sep \<and> prefix sep (drop (nat (bytesIndex s sep)) s)"
proof (induction s)
  case Nil
  then show ?case by (simp split: if_splits)
next
  case (Cons b s)
  show ?case
  proof (cases "prefix sep (b # s)")
    case True
    then show ?thesis by simp
  next
    case False
    with Cons.prems have ne: "bytesIndex s sep \<noteq> - 1"
      by (auto simp add: Let_def split: if_splits)
    with False have eq: "bytesIndex (b # s) sep = bytesIndex s sep + 1"
      by (simp add: Let_def)
    from Cons.IH [OF ne] have "0 \<le> bytesIndex s sep"
      and "prefix sep (drop (nat (bytesIndex s sep)) s)" by simp_all
    then show ?thesis
      using eq by (simp add: nat_add_distrib)
  qed
qed

lemma findExistingLoop_start:
  "findExistingLoop h n 4 0 =
     Some (let p = bytesIndex h n
           in if p = - 1 then - 1 else if p mod 4 = 0 then p div 4 else 0)"
proof (cases "bytesIndex h n = - 1")
  case True
  then show ?thesis
    by (subst findExistingLoop.simps) simp
next
  case False
  note found = bytesIndex_found [OF False]
  show ?thesis
  proof (cases "bytesIndex h n mod 4 = 0")
    case True
    with False show ?thesis
      by (subst findExistingLoop.simps) (simp add: Let_def)
  next
    case unaligned: False
    have again: "bytesIndex (drop (nat (bytesIndex h n)) h) n = 0"
      using found by (simp add: bytesIndex_prefix)
    have "findExistingLoop h n 4 0 = findExistingLoop h n 4 (bytesIndex h n)"
      using False unaligned by (subst findExistingLoop.simps) (simp add: Let_def)
    also have "\<dots> = Some 0"
      using again by (subst findExistingLoop.simps) (simp add: Let_def)
    finally show ?thesis
      using False unaligned by (simp add: Let_def)
  qed
qed

lemma findExisting_closed:
  "findExisting bo haystack needle =
     Some (if haystack = [] \<or> needle = [] then - 1
           else let p = bytesIndex (sliceBytes bo haystack) (sliceBytes bo needle)
                in if p = - 1 then - 1 else if p mod 4 = 0 then p div 4 else 0)"
  by (simp add: findExisting_def findExistingLoop_start)

text \<open>
  C3 fails on the code. \<^verbatim>\<open>findExisting\<close> searches the bytes of the haystack. When the
  first match of the needle's bytes does not start at an element boundary, the loop
  searches again in \<^verbatim>\<open>h[i:]\<close>, where the needle is found at the relative index 0, and
  returns the element index 0, although the haystack does not start with the needle. In
  the haystack \<open>[1, 0x10000, 1]\<close> the four zero bytes of the needle \<open>[0]\<close> occur first
  across two elements, in either byte order: the function returns 0 and the element at
  index 0 is 1.
\<close>

theorem findExisting_returns_false_match:
  "findExisting LittleEndian [1, 0x10000, 1] [0] = Some 0
   \<and> findExisting BigEndian [1, 0x10000, 1] [0] = Some 0
   \<and> take (length [0 :: TrieType]) (drop (nat 0) [1, 0x10000, 1]) \<noteq> [0 :: TrieType]"
  by (simp add: findExisting_closed sliceBytes_def wordBytes_def Let_def)

section \<open>The trie of a sparse array\<close>

lemma sliceBytes_replicate_0: "sliceBytes LittleEndian (replicate n 0) = replicate (4 * n) 0"
proof (induction n)
  case 0
  then show ?case by (simp add: sliceBytes_def)
next
  case (Suc n)
  have "replicate (4 * Suc n) (0 :: 8 word) = replicate 4 0 @ replicate (4 * n) 0"
    by (simp add: replicate_add [symmetric])
  also have "replicate 4 (0 :: 8 word) = [0, 0, 0, 0]"
    by (simp add: numeral_eq_Suc)
  finally show ?case
    using Suc by (simp add: sliceBytes_def wordBytes_def)
qed

lemma sliceBytes_Cons_1:
  "sliceBytes LittleEndian (1 # xs) = 1 # 0 # 0 # 0 # sliceBytes LittleEndian xs"
  by (simp add: sliceBytes_def wordBytes_def)

lemma prefix_replicate: "m \<le> k \<Longrightarrow> prefix (replicate m x) (replicate k x)"
  by (metis le_Suc_ex prefixI replicate_add)

lemma bytesIndex_after_one:
  assumes "0 < m" "m \<le> k"
  shows "bytesIndex (1 # replicate k 0) (replicate m 0) = 1"
proof -
  obtain m' where m: "m = Suc m'" using assms(1) by (cases m) auto
  have "\<not> prefix (replicate m 0) (1 # replicate k (0 :: 8 word))"
    by (simp add: m)
  moreover have "bytesIndex (replicate k 0) (replicate m (0 :: 8 word)) = 0"
    using assms(2) by (simp add: bytesIndex_prefix prefix_replicate)
  ultimately show ?thesis by simp
qed

lemma findExisting_one_zeros:
  assumes "0 < b" "b \<le> a"
  shows "findExisting LittleEndian (1 # replicate a 0) (replicate b 0) = Some 0"
proof -
  have "bytesIndex (sliceBytes LittleEndian (1 # replicate a 0)) (sliceBytes LittleEndian (replicate b 0)) = 1"
    using bytesIndex_after_one [of "4 * b" "3 + 4 * a"] assms
    by (simp add: sliceBytes_replicate_0 sliceBytes_Cons_1 numeral_3_eq_3)
  then show ?thesis
    using assms by (auto simp add: findExisting_closed)
qed

lemma sparseValues_eq: "sparseValues = 1 # replicate 1114111 0"
  by (simp add: sparseValues_def trieValue_def)

lemma first_chunk:
  "chunkLoop LittleEndian (1 # replicate 1114111 0) 1048576 0 Map.empty [] []
     = chunkLoop LittleEndian (1 # replicate 1114111 0) 1048576 1048576
         [sliceBytes LittleEndian (1 # replicate 1048575 0) \<mapsto> 0] (1 # replicate 1048575 0) [0]"
  by (subst chunkLoop.simps)
     (simp add: findExisting_def measureOverlap_def Let_def)

lemma key_differs:
  "sliceBytes LittleEndian (replicate 65536 0) \<noteq> sliceBytes LittleEndian (1 # replicate 1048575 0)"
proof
  assume "sliceBytes LittleEndian (replicate 65536 0) = sliceBytes LittleEndian (1 # replicate 1048575 0)"
  then have "length (sliceBytes LittleEndian (replicate 65536 0))
      = length (sliceBytes LittleEndian (1 # replicate 1048575 0))" by simp
  then show False
    by (simp add: sliceBytes_replicate_0 sliceBytes_Cons_1)
qed

lemma second_chunk:
  "chunkLoop LittleEndian (1 # replicate 1114111 0) 1048576 1048576
         [sliceBytes LittleEndian (1 # replicate 1048575 0) \<mapsto> 0] (1 # replicate 1048575 0) [0]
     = chunkLoop LittleEndian (1 # replicate 1114111 0) 1048576 2097152
         [sliceBytes LittleEndian (1 # replicate 1048575 0) \<mapsto> 0,
          sliceBytes LittleEndian (replicate 65536 0) \<mapsto> 0] (1 # replicate 1048575 0) [0, 0]"
  by (subst chunkLoop.simps)
     (simp add: key_differs findExisting_one_zeros Let_def)

lemma loop_end:
  "chunkLoop LittleEndian (1 # replicate 1114111 0) 1048576 2097152 cache compressed offsets
     = Inr (compressed, offsets)"
  by (subst chunkLoop.simps) simp

lemma buildTrie_sparse:
  "buildTrie LittleEndian (1 # replicate 1114111 0) [20] =
     Inr \<lparr>Stages = [\<lparr>Values = [0, 0], Shift = 20, Mask = 2147483647, Bits = 8\<rparr>,
                    \<lparr>Values = 1 # replicate 1048575 0, Shift = 0, Mask = 1048575, Bits = 8\<rparr>],
          TotalSize = 1048578\<rparr>"
  by (simp add: buildTrie_def buildStage_def chunkSizeOf_def wrap64_def first_chunk second_chunk
      loop_end MaxInt32_def bitsFor_def)

lemma lookup_sparse:
  "trieLookup \<lparr>Stages = [\<lparr>Values = [0, 0], Shift = 20, Mask = 2147483647, Bits = 8\<rparr>,
                    \<lparr>Values = 1 # replicate 1048575 0, Shift = 0, Mask = 1048575, Bits = 8\<rparr>],
          TotalSize = 1048578\<rparr> 1048576 = Inr 1"
  by (simp add: trieLookup_def Let_def)

text \<open>
  C1 fails on the code. For the array \<open>sparseValues\<close> and the single shift 20 the array
  is cut into a chunk of 1048576 values and a last chunk of 65536 zeros. The bytes of the
  last chunk first occur in the compressed output at byte offset 1, inside the first
  element, and \<^verbatim>\<open>findExisting\<close> returns the index 0 for it. The offset 0 is stored for
  the second chunk, and the lookup of the code point 1048576 through the trie gives 1
  ({Control, ZeroWidth}) where the array holds 0 ({Other, ZeroWidth}).
\<close>

theorem buildTrie_loses_round_trip:
  "length sparseValues = 1114112
   \<and> buildTrie LittleEndian sparseValues [20] =
       Inr \<lparr>Stages = [\<lparr>Values = [0, 0], Shift = 20, Mask = 2147483647, Bits = 8\<rparr>,
                      \<lparr>Values = 1 # replicate 1048575 0, Shift = 0, Mask = 1048575, Bits = 8\<rparr>],
            TotalSize = 1048578\<rparr>
   \<and> trieLookup \<lparr>Stages = [\<lparr>Values = [0, 0], Shift = 20, Mask = 2147483647, Bits = 8\<rparr>,
                      \<lparr>Values = 1 # replicate 1048575 0, Shift = 0, Mask = 1048575, Bits = 8\<rparr>],
            TotalSize = 1048578\<rparr> 1048576 = Inr 1
   \<and> sparseValues ! 1048576 = 0"
  using buildTrie_sparse lookup_sparse
  by (simp add: sparseValues_eq)

section \<open>The trie builder returns\<close>

lemma chunkLoop_returns:
  "\<exists>c q. chunkLoop bo u cs i cache cmpr offs = Inr (c, q)
      \<and> (cmpr \<noteq> [] \<longrightarrow> c \<noteq> []) \<and> (offs \<noteq> [] \<longrightarrow> q \<noteq> [])"
proof (induction "length u - i" arbitrary: i cache cmpr offs rule: less_induct)
  case less
  show ?case
  proof (cases "i < length u \<and> 0 < cs")
    case False
    then show ?thesis
      by (subst chunkLoop.simps) auto
  next
    case True
    then have dec: "length u - (i + cs) < length u - i" by linarith
    note ih = less [OF dec]
    let ?chunk = "take (min (length u) (i + cs) - i) (drop i u)"
    let ?key = "sliceBytes bo ?chunk"
    show ?thesis
    proof (cases "cache ?key")
      case (Some offset)
      have "chunkLoop bo u cs i cache cmpr offs
              = chunkLoop bo u cs (i + cs) cache cmpr (offs @ [offset])"
        using True Some by (subst chunkLoop.simps) (simp add: Let_def)
      then show ?thesis
        using ih [of cache cmpr "offs @ [offset]"] by auto
    next
      case None
      obtain existing where ex: "findExisting bo cmpr ?chunk = Some existing"
        by (simp add: findExisting_closed)
      show ?thesis
      proof (cases "existing \<noteq> - 1")
        case found: True
        have "chunkLoop bo u cs i cache cmpr offs
              = chunkLoop bo u cs (i + cs) (cache(?key \<mapsto> word_of_int existing)) cmpr
                  (offs @ [word_of_int existing])"
          using True None ex found by (subst chunkLoop.simps) (simp add: Let_def)
        then show ?thesis
          using ih [of "cache(?key \<mapsto> word_of_int existing)" cmpr "offs @ [word_of_int existing]"]
          by auto
      next
        case absent: False
        let ?cmpr' = "cmpr @ drop (measureOverlap cmpr ?chunk) ?chunk"
        let ?off = "word_of_nat (length ?cmpr' - length ?chunk) :: TrieType"
        have "chunkLoop bo u cs i cache cmpr offs
              = chunkLoop bo u cs (i + cs) (cache(?key \<mapsto> ?off)) ?cmpr' (offs @ [?off])"
          using True None ex absent by (subst chunkLoop.simps) (simp add: Let_def)
        then show ?thesis
          using ih [of "cache(?key \<mapsto> ?off)" ?cmpr' "offs @ [?off]"]
          by auto
      qed
    qed
  qed
qed

lemma wrap64_id: "- (2 ^ 63) \<le> x \<Longrightarrow> x < 2 ^ 63 \<Longrightarrow> wrap64 x = x"
  by (simp add: wrap64_def)

lemma wrap64_le_MaxInt: "wrap64 x \<le> MaxInt"
proof -
  have "(x + 2 ^ 63) mod 2 ^ 64 < (2 ^ 64 :: int)" by simp
  then show ?thesis by (simp add: wrap64_def MaxInt_def)
qed

lemma chunkSizeOf_small:
  assumes "0 \<le> shift" "shift \<le> 62"
  shows "chunkSizeOf shift = 2 ^ nat shift" "0 < chunkSizeOf shift"
proof -
  have "nat shift \<le> 62" using assms by simp
  then have "(2 :: int) ^ nat shift \<le> 2 ^ 62"
    by (intro power_increasing) simp_all
  then have up: "(2 :: int) ^ nat shift < 2 ^ 63" by simp
  have low: "- (2 ^ 63) \<le> (2 :: int) ^ nat shift"
    by (rule order_trans [of _ 0]) simp_all
  show eq: "chunkSizeOf shift = 2 ^ nat shift"
    unfolding chunkSizeOf_def using low up by (rule wrap64_id)
  show "0 < chunkSizeOf shift" unfolding eq by simp
qed

lemma buildStage_returns:
  assumes "u \<noteq> []" "0 \<le> shift" "shift \<le> 62"
  shows "\<exists>c q. buildStage bo u shift = Inr (c, q) \<and> c \<noteq> [] \<and> q \<noteq> []"
proof -
  let ?cs = "nat (chunkSizeOf shift)"
  have pos: "0 < ?cs" using chunkSizeOf_small(2) [OF assms(2,3)] by simp
  let ?chunk = "take (min (length u) (0 + ?cs) - 0) (drop 0 u)"
  have chunk: "?chunk \<noteq> []" using assms(1) pos by simp
  let ?off = "word_of_nat (length ([] @ drop (measureOverlap [] ?chunk) ?chunk) - length ?chunk) :: TrieType"
  have first: "chunkLoop bo u ?cs 0 Map.empty [] []
      = chunkLoop bo u ?cs (0 + ?cs) [sliceBytes bo ?chunk \<mapsto> ?off]
          ([] @ drop (measureOverlap [] ?chunk) ?chunk) ([] @ [?off])"
    using assms(1) pos
    by (subst chunkLoop.simps) (simp add: Let_def findExisting_def)
  have "[] @ drop (measureOverlap [] ?chunk) ?chunk \<noteq> []"
    using chunk by (simp add: measureOverlap_def)
  then obtain c q where "chunkLoop bo u ?cs 0 Map.empty [] [] = Inr (c, q)" "c \<noteq> []" "q \<noteq> []"
    using chunkLoop_returns [of bo u ?cs "0 + ?cs" "[sliceBytes bo ?chunk \<mapsto> ?off]"
        "[] @ drop (measureOverlap [] ?chunk) ?chunk" "[] @ [?off]"] first
    by auto
  then show ?thesis
    using assms chunkSizeOf_small(2) [OF assms(2,3)] by (simp add: buildStage_def)
qed

lemma buildStages_returns:
  assumes "u \<noteq> []" "\<forall>s \<in> set shifts. 0 \<le> s \<and> s \<le> 62" "\<forall>s \<in> set stages. Values s \<noteq> []"
  shows "\<exists>st u' cum'. buildStages bo u shifts cum stages = Inr (st, u', cum')
           \<and> u' \<noteq> [] \<and> (\<forall>s \<in> set st. Values s \<noteq> [])"
  using assms
proof (induction shifts arbitrary: u cum stages)
  case Nil
  then show ?case by simp
next
  case (Cons shift shifts)
  obtain c q where st: "buildStage bo u shift = Inr (c, q)" "c \<noteq> []" "q \<noteq> []"
    using buildStage_returns [of u shift bo] Cons.prems by auto
  let ?stages = "stages @ [\<lparr>Values = c, Shift = cum, Mask = wrap64 (chunkSizeOf shift - 1), Bits = 0\<rparr>]"
  have "\<forall>s \<in> set ?stages. Values s \<noteq> []"
    using Cons.prems(3) st(2) by auto
  then show ?case
    using Cons.IH [of q ?stages "wrap64 (cum + shift)"] Cons.prems(2) st by simp
qed

lemma setBits_returns:
  assumes "\<forall>s \<in> set stages. Values s \<noteq> []"
  shows "\<exists>stages'. setBits stages = Inr stages'"
  using assms by (induction stages) auto

lemma totalSizeFrom_le: "a \<le> MaxInt \<Longrightarrow> totalSizeFrom a stages \<le> MaxInt"
  by (induction stages arbitrary: a) (simp_all add: wrap64_le_MaxInt)

lemma wrap64_wrap64_add: "wrap64 (wrap64 a + b) = wrap64 (a + b)"
proof -
  have "(wrap64 a + b + 2 ^ 63) mod 2 ^ 64 = ((a + 2 ^ 63) mod 2 ^ 64 + b) mod 2 ^ 64"
    by (simp add: wrap64_def)
  also have "\<dots> = (a + 2 ^ 63 + b) mod 2 ^ 64"
    by (rule mod_add_left_eq)
  also have "a + 2 ^ 63 + b = a + b + 2 ^ 63"
    by simp
  finally show ?thesis by (simp add: wrap64_def)
qed

lemma totalSizeFrom_sum:
  "totalSizeFrom a stages
     = (if stages = [] then a
        else wrap64 (a + (\<Sum>s\<leftarrow>stages. (Bits s div 8) * int (length (Values s)))))"
proof (induction stages arbitrary: a)
  case Nil
  then show ?case by simp
next
  case (Cons s stages)
  show ?case
    by (simp add: Cons.IH wrap64_wrap64_add add.assoc)
qed

lemma buildTrie_returns:
  assumes "u \<noteq> []" "\<forall>s \<in> set shifts. 0 \<le> s \<and> s \<le> 62"
  shows "\<exists>t. buildTrie bo u shifts = Inr t \<and> TotalSize t \<le> MaxInt
           \<and> TotalSize t = wrap64 (\<Sum>s\<leftarrow>Stages t. (Bits s div 8) * int (length (Values s)))"
proof -
  obtain st u' cum' where b: "buildStages bo u shifts 0 [] = Inr (st, u', cum')"
    and ne: "u' \<noteq> []" "\<forall>s \<in> set st. Values s \<noteq> []"
    using buildStages_returns [of u shifts "[]" bo 0] assms by auto
  let ?all = "rev (st @ [\<lparr>Values = u', Shift = cum', Mask = MaxInt32, Bits = 0\<rparr>])"
  have "\<forall>s \<in> set ?all. Values s \<noteq> []" using ne by auto
  then obtain stages' where sb: "setBits ?all = Inr stages'"
    using setBits_returns by blast
  have nonempty: "stages' \<noteq> []"
    using sb by (cases ?all) (auto split: if_splits sum.splits)
  have "buildTrie bo u shifts = Inr \<lparr>Stages = stages', TotalSize = totalSizeFrom 0 stages'\<rparr>"
    using b sb by (simp add: buildTrie_def)
  moreover have "totalSizeFrom 0 stages' \<le> MaxInt"
    by (rule totalSizeFrom_le) (simp add: MaxInt_def)
  moreover have "totalSizeFrom 0 stages'
      = wrap64 (\<Sum>s\<leftarrow>stages'. (Bits s div 8) * int (length (Values s)))"
    using nonempty by (simp add: totalSizeFrom_sum)
  ultimately show ?thesis by simp
qed

section \<open>The search over the shifts\<close>

lemma tdiv_nonneg: "0 \<le> a \<Longrightarrow> 0 < b \<Longrightarrow> tdiv a b = a div b"
  by (cases "a = 0") (simp_all add: tdiv_def)

lemma tmod_nonneg: "0 \<le> a \<Longrightarrow> 0 < b \<Longrightarrow> tmod a b = a mod b"
  by (simp add: tmod_def tdiv_nonneg minus_mult_div_eq_mod)

lemma shift_digit:
  assumes "0 \<le> i" "0 < delta" "0 \<le> minShift" "minShift + delta - 1 \<le> 62"
  shows "wrap64 (minShift + tmod i delta) = minShift + i mod delta"
    and "minShift \<le> minShift + i mod delta" and "minShift + i mod delta \<le> minShift + delta - 1"
proof -
  have m: "0 \<le> i mod delta" "i mod delta < delta"
    using assms(2) by simp_all
  then have "- (2 ^ 63) \<le> minShift + i mod delta" "minShift + i mod delta < 2 ^ 63"
    using assms(3,4) by simp_all
  then show "wrap64 (minShift + tmod i delta) = minShift + i mod delta"
    using assms(1,2) by (simp add: tmod_nonneg wrap64_id)
  show "minShift \<le> minShift + i mod delta" "minShift + i mod delta \<le> minShift + delta - 1"
    using m by simp_all
qed

lemma length_shiftsFor: "length (shiftsFor n minShift delta i) = n"
  by (induction n arbitrary: i) simp_all

lemma shiftsFor_in_range:
  assumes "0 \<le> i" "0 < delta" "0 \<le> minShift" "minShift + delta - 1 \<le> 62"
  shows "set (shiftsFor n minShift delta i) \<subseteq> {minShift .. minShift + delta - 1}"
  using assms(1)
proof (induction n arbitrary: i)
  case 0
  then show ?case by simp
next
  case (Suc n)
  have "0 \<le> i div delta" using Suc.prems assms(2) by (simp add: pos_imp_zdiv_nonneg_iff)
  then have "set (shiftsFor n minShift delta (i div delta)) \<subseteq> {minShift .. minShift + delta - 1}"
    by (rule Suc.IH)
  then show ?case
    using shift_digit [OF Suc.prems assms(2,3,4)] Suc.prems assms(2)
    by (simp add: tdiv_nonneg)
qed

lemma shiftsFor_onto:
  assumes "0 < delta" "0 \<le> minShift" "minShift + delta - 1 \<le> 62"
    and "set xs \<subseteq> {minShift .. minShift + delta - 1}"
  shows "\<exists>i. 0 \<le> i \<and> i < delta ^ length xs \<and> shiftsFor (length xs) minShift delta i = xs"
  using assms(4)
proof (induction xs)
  case Nil
  show ?case by (intro exI [of _ 0]) simp
next
  case (Cons x xs)
  then obtain j where j: "0 \<le> j" "j < delta ^ length xs"
      "shiftsFor (length xs) minShift delta j = xs"
    by auto
  have x: "0 \<le> x - minShift" "x - minShift < delta"
    using Cons.prems by simp_all
  let ?i = "(x - minShift) + delta * j"
  have nonneg: "0 \<le> ?i" using x j(1) assms(1) by simp
  have md: "?i mod delta = x - minShift" using x by simp
  have dv: "?i div delta = j" using x assms(1) by simp
  have "j + 1 \<le> delta ^ length xs" using j(2) by simp
  then have "delta * (j + 1) \<le> delta * delta ^ length xs"
    using assms(1) by (simp add: mult_left_mono)
  then have bound: "?i < delta ^ length (x # xs)"
    using x by (simp add: algebra_simps)
  have "shiftsFor (length (x # xs)) minShift delta ?i = x # xs"
    using shift_digit(1) [OF nonneg assms(1,2,3)] nonneg assms(1) md dv j(3)
    by (simp add: tdiv_nonneg)
  then show ?case using nonneg bound by blast
qed

lemma shiftsFor_image:
  assumes "0 < delta" "0 \<le> minShift" "minShift + delta - 1 \<le> 62"
  shows "(\<lambda>i. shiftsFor n minShift delta (int i)) ` {0 ..< nat (delta ^ n)}
           = set (List.n_lists n [minShift .. minShift + delta - 1])"
proof (intro equalityI subsetI)
  fix xs assume "xs \<in> (\<lambda>i. shiftsFor n minShift delta (int i)) ` {0 ..< nat (delta ^ n)}"
  then obtain i where "xs = shiftsFor n minShift delta (int i)" by auto
  then show "xs \<in> set (List.n_lists n [minShift .. minShift + delta - 1])"
    using shiftsFor_in_range [of "int i" delta minShift n] assms
    by (simp add: set_n_lists length_shiftsFor)
next
  fix xs assume "xs \<in> set (List.n_lists n [minShift .. minShift + delta - 1])"
  then have len: "length xs = n" and rng: "set xs \<subseteq> {minShift .. minShift + delta - 1}"
    by (auto simp add: set_n_lists)
  obtain i where i: "0 \<le> i" "i < delta ^ n" "shiftsFor n minShift delta i = xs"
    using shiftsFor_onto [OF assms rng] len by auto
  then have "nat i \<in> {0 ..< nat (delta ^ n)}" "shiftsFor n minShift delta (int (nat i)) = xs"
    by simp_all
  then show "xs \<in> (\<lambda>i. shiftsFor n minShift delta (int i)) ` {0 ..< nat (delta ^ n)}"
    by blast
qed

lemma itersFor_power:
  assumes "1 \<le> delta" "delta ^ n < 2 ^ 63"
  shows "itersFor n delta = delta ^ n"
  using assms(2)
proof (induction n)
  case 0
  then show ?case by simp
next
  case (Suc n)
  have "delta ^ n \<le> delta ^ Suc n"
    using assms(1) by (intro power_increasing) simp_all
  then have "itersFor n delta = delta ^ n"
    using Suc by simp
  moreover have "- (2 ^ 63) \<le> delta ^ Suc n"
    by (rule order_trans [of _ 0]) (use assms(1) in simp_all)
  ultimately show ?case
    using Suc.prems by (simp add: wrap64_id mult.commute)
qed

lemma receiveLoop_step:
  "Min (insert (TotalSize (if TotalSize best > TotalSize t then t else best)) (TotalSize ` set ts))
     = Min (insert (TotalSize best) (TotalSize ` set (t # ts)))"
proof -
  let ?S = "TotalSize ` set ts"
  have pick: "TotalSize (if TotalSize best > TotalSize t then t else best)
      = min (TotalSize best) (TotalSize t)"
    by (simp add: min_def)
  show ?thesis
  proof (cases "?S = {}")
    case True
    then show ?thesis unfolding pick by simp
  next
    case False
    have "Min (insert (min (TotalSize best) (TotalSize t)) ?S)
        = min (min (TotalSize best) (TotalSize t)) (Min ?S)"
      using False by (intro Min_insert) simp_all
    also have "\<dots> = min (TotalSize best) (min (TotalSize t) (Min ?S))"
      by (rule min.assoc)
    also have "min (TotalSize t) (Min ?S) = Min (insert (TotalSize t) ?S)"
      using False by (intro Min_insert [symmetric]) simp_all
    also have "min (TotalSize best) (Min (insert (TotalSize t) ?S))
        = Min (insert (TotalSize best) (insert (TotalSize t) ?S))"
      by (intro Min_insert [symmetric]) simp_all
    finally show ?thesis unfolding pick by simp
  qed
qed

lemma receiveLoop_min:
  "\<exists>b. receiveLoop (map Inr ts) best = Inr b
      \<and> TotalSize b = Min (insert (TotalSize best) (TotalSize ` set ts))
      \<and> (b = best \<or> b \<in> set ts)"
proof (induction ts arbitrary: best)
  case Nil
  then show ?case by simp
next
  case (Cons t ts)
  let ?best = "if TotalSize best > TotalSize t then t else best"
  obtain b where b: "receiveLoop (map Inr ts) ?best = Inr b"
      "TotalSize b = Min (insert (TotalSize ?best) (TotalSize ` set ts))"
      "b = ?best \<or> b \<in> set ts"
    using Cons.IH [of ?best] by blast
  have "TotalSize b = Min (insert (TotalSize best) (TotalSize ` set (t # ts)))"
    using b(2) unfolding receiveLoop_step .
  moreover have "b = best \<or> b \<in> set (t # ts)"
    using b(3) by (auto split: if_splits)
  ultimately show ?case using b(1) by simp
qed

text \<open>
  C7, as the code has it. For a non-empty array, shifts with \<open>0 \<le> minShift \<le> maxShift \<le> 62\<close>,
  \<open>stages \<ge> 1\<close> and a number of candidates \<open>(maxShift - minShift + 1) ^ (stages - 1)\<close>
  below \<open>2 ^ 63\<close>, and for every order in which the results arrive: \<^verbatim>\<open>buildBestTrie\<close>
  returns a trie; \<^verbatim>\<open>buildTrie\<close> returns a trie for every tuple of \<open>stages - 1\<close> shifts
  from \<open>[minShift, maxShift]\<close>, whose \<^verbatim>\<open>TotalSize\<close> is the sum over its stages of
  \<^verbatim>\<open>Bits/8\<close> times the number of entries (in 64-bit arithmetic); and the \<^verbatim>\<open>TotalSize\<close> of
  the returned trie is the minimum of these. The returned trie is one of the candidates,
  or the initial \<^verbatim>\<open>bestTrie\<close> if no candidate is smaller than \<^verbatim>\<open>math.MaxInt\<close>.
\<close>

theorem buildBestTrie_minimal:
  assumes "uncompressed \<noteq> []" "0 \<le> minShift" "minShift \<le> maxShift" "maxShift \<le> 62"
    and "1 \<le> stages"
    and "(maxShift - minShift + 1) ^ nat (stages - 1) < 2 ^ 63"
    and "mset order = mset [0 ..< nat (iters minShift maxShift stages)]"
  shows "\<exists>best. buildBestTrie bo uncompressed minShift maxShift stages order = Inr best
      \<and> (\<forall>shifts \<in> set (List.n_lists (nat (stages - 1)) [minShift .. maxShift]).
            \<exists>t. buildTrie bo uncompressed shifts = Inr t
              \<and> TotalSize t = wrap64 (\<Sum>s\<leftarrow>Stages t. (Bits s div 8) * int (length (Values s))))
      \<and> TotalSize best
          = Min {TotalSize t | t shifts.
                  shifts \<in> set (List.n_lists (nat (stages - 1)) [minShift .. maxShift])
                  \<and> buildTrie bo uncompressed shifts = Inr t}
      \<and> (best = \<lparr>Stages = [], TotalSize = MaxInt\<rparr>
           \<or> (\<exists>shifts \<in> set (List.n_lists (nat (stages - 1)) [minShift .. maxShift]).
                 buildTrie bo uncompressed shifts = Inr best))"
proof -
  define delta where "delta = maxShift - minShift + 1"
  define n where "n = nat (stages - 1)"
  define tuples where "tuples = set (List.n_lists n [minShift .. maxShift])"
  define f where "f = (\<lambda>i. buildTrie bo uncompressed (shiftsFor n minShift delta (int i)))"
  have delta: "1 \<le> delta" "0 < delta" "minShift + delta - 1 \<le> 62" "minShift + delta - 1 = maxShift"
    using assms(2,3,4) by (simp_all add: delta_def)
  have wd: "wrap64 (maxShift - minShift + 1) = delta"
    unfolding delta_def using assms(2,3,4) by (intro wrap64_id) simp_all
  have it: "iters minShift maxShift stages = delta ^ n"
    using itersFor_power [OF delta(1), of n] assms(6)
    by (simp add: iters_def wd n_def delta_def)
  have order: "set order = {0 ..< nat (delta ^ n)}"
    using assms(7) it by (metis mset_eq_setD set_upt)
  have image: "(\<lambda>i. shiftsFor n minShift delta (int i)) ` set order = tuples"
    unfolding order tuples_def
    using shiftsFor_image [OF delta(2) assms(2) delta(3), of n] delta(4) by simp
  have ok: "\<exists>t. buildTrie bo uncompressed shifts = Inr t \<and> TotalSize t \<le> MaxInt
          \<and> TotalSize t = wrap64 (\<Sum>s\<leftarrow>Stages t. (Bits s div 8) * int (length (Values s)))"
    if "shifts \<in> tuples" for shifts
  proof -
    have "set shifts \<subseteq> {minShift .. maxShift}"
      using that by (auto simp add: tuples_def set_n_lists)
    then have "\<forall>s \<in> set shifts. 0 \<le> s \<and> s \<le> 62"
      using assms(2,4) by auto
    then show ?thesis
      using buildTrie_returns [OF assms(1)] by blast
  qed
  define ts where "ts = map (\<lambda>i. projr (f i)) order"
  have fi: "f i = Inr (projr (f i))" if "i \<in> set order" for i
  proof -
    have "shiftsFor n minShift delta (int i) \<in> tuples"
      using image that by blast
    then obtain t where "f i = Inr t" using ok unfolding f_def by blast
    then show ?thesis by simp
  qed
  have results: "map (\<lambda>i. if stages - 1 < 0 then Inl Panic
                      else buildTrie bo uncompressed
                             (shiftsFor (nat (stages - 1)) minShift
                                (wrap64 (maxShift - minShift + 1)) (int i))) order
      = map Inr ts"
    using assms(5) fi by (simp add: ts_def wd n_def f_def)
  let ?start = "\<lparr>Stages = [], TotalSize = MaxInt\<rparr>"
  obtain b where b: "receiveLoop (map Inr ts) ?start = Inr b"
      "TotalSize b = Min (insert (TotalSize ?start) (TotalSize ` set ts))"
      "b = ?start \<or> b \<in> set ts"
    using receiveLoop_min [of ts ?start] by blast
  have run: "buildBestTrie bo uncompressed minShift maxShift stages order = Inr b"
    using b(1) results by (simp add: buildBestTrie_def Let_def)
  have cand: "set ts = {t. \<exists>shifts \<in> tuples. buildTrie bo uncompressed shifts = Inr t}"
  proof (intro equalityI subsetI)
    fix t assume "t \<in> set ts"
    then obtain i where i: "i \<in> set order" "t = projr (f i)" by (auto simp add: ts_def)
    then have "f i = Inr t" using fi by simp
    moreover have "shiftsFor n minShift delta (int i) \<in> tuples" using image i(1) by blast
    ultimately show "t \<in> {t. \<exists>shifts \<in> tuples. buildTrie bo uncompressed shifts = Inr t}"
      unfolding f_def by blast
  next
    fix t assume "t \<in> {t. \<exists>shifts \<in> tuples. buildTrie bo uncompressed shifts = Inr t}"
    then obtain shifts where s: "shifts \<in> tuples" "buildTrie bo uncompressed shifts = Inr t"
      by blast
    then obtain i where i: "i \<in> set order" "shifts = shiftsFor n minShift delta (int i)"
      using image by blast
    then have "f i = Inr t" using s(2) by (simp add: f_def)
    then have "projr (f i) = t" by simp
    then show "t \<in> set ts" using i(1) by (auto simp add: ts_def)
  qed
  have sizes: "TotalSize ` set ts = {TotalSize t | t shifts.
                  shifts \<in> tuples \<and> buildTrie bo uncompressed shifts = Inr t}"
    unfolding cand by auto
  have "0 < delta ^ n" using delta(2) by simp
  then have "order \<noteq> []" using order by auto
  then have ne: "TotalSize ` set ts \<noteq> {}" by (simp add: ts_def)
  have le: "x \<le> MaxInt" if mem: "x \<in> TotalSize ` set ts" for x
  proof -
    obtain t shifts where "x = TotalSize t" "shifts \<in> tuples"
        "buildTrie bo uncompressed shifts = Inr t"
      using mem unfolding cand by blast
    then show ?thesis using ok [of shifts] by auto
  qed
  have "Min (insert (TotalSize ?start) (TotalSize ` set ts)) = Min (TotalSize ` set ts)"
  proof -
    have "Min (insert MaxInt (TotalSize ` set ts)) = min MaxInt (Min (TotalSize ` set ts))"
      using ne by (intro Min_insert) simp_all
    moreover have "Min (TotalSize ` set ts) \<le> MaxInt"
      using ne le by (simp add: Min_in)
    ultimately show ?thesis by (simp add: min_def)
  qed
  then have minimal: "TotalSize b = Min {TotalSize t | t shifts.
                  shifts \<in> tuples \<and> buildTrie bo uncompressed shifts = Inr t}"
    using b(2) sizes by simp
  have all: "\<forall>shifts \<in> tuples. \<exists>t. buildTrie bo uncompressed shifts = Inr t
              \<and> TotalSize t = wrap64 (\<Sum>s\<leftarrow>Stages t. (Bits s div 8) * int (length (Values s)))"
    using ok by blast
  have origin: "b = ?start \<or> (\<exists>shifts \<in> tuples. buildTrie bo uncompressed shifts = Inr b)"
    using b(3) cand by auto
  show ?thesis
    using run all minimal origin unfolding tuples_def n_def by blast
qed

lemma iters_example: "iters 2 3 2 = 2"
  by (simp add: iters_def wrap64_def)

lemmas trie_eval = buildTrie_def buildStage_def chunkSizeOf_def wrap64_def
  chunkLoop.simps findExisting_closed sliceBytes_def wordBytes_def
  measureOverlap_def MaxInt32_def bitsFor_def Let_def

lemma buildTrie_fives_2:
  "buildTrie LittleEndian [5, 5, 5, 5, 5, 5, 5, 5] [2]
   = Inr \<lparr>Stages = [\<lparr>Values = [0, 0], Shift = 2, Mask = 2147483647, Bits = 8\<rparr>,
                    \<lparr>Values = [5, 5, 5, 5], Shift = 0, Mask = 3, Bits = 8\<rparr>],
          TotalSize = 6\<rparr>"
  by (simp add: trie_eval)

lemma buildTrie_fives_3:
  "buildTrie LittleEndian [5, 5, 5, 5, 5, 5, 5, 5] [3]
   = Inr \<lparr>Stages = [\<lparr>Values = [0], Shift = 3, Mask = 2147483647, Bits = 8\<rparr>,
                    \<lparr>Values = [5, 5, 5, 5, 5, 5, 5, 5], Shift = 0, Mask = 7, Bits = 8\<rparr>],
          TotalSize = 9\<rparr>"
  by (simp add: trie_eval)

lemma buildBestTrie_fives:
  "buildBestTrie LittleEndian [5, 5, 5, 5, 5, 5, 5, 5] 2 3 2 [1, 0]
   = Inr \<lparr>Stages = [\<lparr>Values = [0, 0], Shift = 2, Mask = 2147483647, Bits = 8\<rparr>,
                    \<lparr>Values = [5, 5, 5, 5], Shift = 0, Mask = 3, Bits = 8\<rparr>],
          TotalSize = 6\<rparr>"
  by (simp add: buildBestTrie_def wrap64_def tmod_def tdiv_def buildTrie_fives_2
      buildTrie_fives_3 MaxInt_def)

theorem buildBestTrie_minimal_witness:
  "[5, 5, 5, 5, 5, 5, 5, 5] \<noteq> ([] :: TrieType list)
   \<and> (0 :: int) \<le> 2 \<and> (2 :: int) \<le> 3 \<and> (3 :: int) \<le> 62 \<and> (1 :: int) \<le> 2
   \<and> ((3 :: int) - 2 + 1) ^ nat (2 - 1) < 2 ^ 63
   \<and> mset [1, 0] = mset [0 ..< nat (iters 2 3 2)]
   \<and> buildBestTrie LittleEndian [5, 5, 5, 5, 5, 5, 5, 5] 2 3 2 [1, 0]
       = Inr \<lparr>Stages = [\<lparr>Values = [0, 0], Shift = 2, Mask = 2147483647, Bits = 8\<rparr>,
                        \<lparr>Values = [5, 5, 5, 5], Shift = 0, Mask = 3, Bits = 8\<rparr>],
              TotalSize = 6\<rparr>
   \<and> (6 :: int) = Min {TotalSize t | t shifts.
                  shifts \<in> set (List.n_lists (nat (2 - 1)) [2 .. 3])
                  \<and> buildTrie LittleEndian [5, 5, 5, 5, 5, 5, 5, 5] shifts = Inr t}"
proof -
  have h1: "[5, 5, 5, 5, 5, 5, 5, 5] \<noteq> ([] :: TrieType list)" by simp
  have h2: "(0 :: int) \<le> 2" "(2 :: int) \<le> 3" "(3 :: int) \<le> 62" "(1 :: int) \<le> 2" by simp_all
  have h3: "((3 :: int) - 2 + 1) ^ nat (2 - 1) < 2 ^ 63" by simp
  have "[0 ..< nat (iters 2 3 2)] = [0, 1]"
    by (simp add: iters_example upt_rec)
  then have h4: "mset [1, 0] = mset [0 ..< nat (iters 2 3 2)]"
    by (simp add: add_mset_commute)
  obtain best where best: "buildBestTrie LittleEndian [5, 5, 5, 5, 5, 5, 5, 5] 2 3 2 [1, 0] = Inr best"
    "TotalSize best = Min {TotalSize t | t shifts.
                  shifts \<in> set (List.n_lists (nat (2 - 1)) [2 .. 3])
                  \<and> buildTrie LittleEndian [5, 5, 5, 5, 5, 5, 5, 5] shifts = Inr t}"
    using buildBestTrie_minimal [OF h1 h2 h3 h4, of LittleEndian] by blast
  have "TotalSize best = 6"
    using best(1) buildBestTrie_fives by simp
  then show ?thesis
    using h1 h3 h4 best(2) buildBestTrie_fives by simp
qed

text \<open>
  The claim as stated, for all \<open>minShift \<le> maxShift\<close>, fails: with the shift 64 the chunk
  size \<^verbatim>\<open>1 << 64\<close> is 0 and the first chunk is empty, with the shift -1 the shift count
  is negative; in both cases the only goroutine panics and no trie is returned.
\<close>

theorem buildBestTrie_panics_outside_shift_range:
  "buildBestTrie LittleEndian sparseValues 64 64 2 [0] = Inl Panic
   \<and> buildBestTrie LittleEndian sparseValues (- 1) (- 1) 2 [0] = Inl Panic
   \<and> iters 64 64 2 = 1 \<and> iters (- 1) (- 1) 2 = 1 \<and> sparseValues \<noteq> []
   \<and> length sparseValues = 1114112"
  by (simp add: buildBestTrie_def buildTrie_def buildStage_def chunkSizeOf_def wrap64_def
      iters_def sparseValues_def tmod_def tdiv_def)

end
